theory Spec2Isabelle
  imports Complex_Main "HOL-Library.AList"
begin

section \<open>JavaScript values\<close>

text \<open>
  The query builder (\<^verbatim>\<open>utils/queryBuilder.js\<close>) reads \<^verbatim>\<open>req.query\<close>, whose values are what
  the Express query parser delivers: strings, arrays and nested objects. \<^verbatim>\<open>buildUrl\<close> adds a
  number under \<^verbatim>\<open>page\<close>, and a property that is absent reads as \<^verbatim>\<open>undefined\<close>.

  Strings are byte lists holding the UTF-8 encoding of the JavaScript string: every string
  operation of the source (\<^verbatim>\<open>startsWith('-')\<close>, \<^verbatim>\<open>substring(1)\<close>, \<^verbatim>\<open>includes(',')\<close>,
  \<^verbatim>\<open>split(',')\<close>, \<^verbatim>\<open>trim\<close>, the metacharacter \<^verbatim>\<open>replace\<close>, \<^verbatim>\<open>encodeURIComponent\<close>) acts on
  ASCII delimiters or on whole characters, so it commutes with the encoding of a well-formed
  string.

  Numbers are IEEE doubles. Every number the code computes holds an integer or is not
  finite, so a number is \<open>Num n\<close>, the double whose value is the integer \<open>n\<close>, an infinity
  or \<^verbatim>\<open>NaN\<close>. The sign of zero is left out: no operation of the source tells \<^verbatim>\<open>-0\<close> from
  \<^verbatim>\<open>0\<close>.
\<close>

datatype jsnum = Num int | PosInf | NegInf | NaN

subsection \<open>Double arithmetic\<close>

text \<open>
  An integer is a double when it has at most 53 significant bits. Every operation rounds its
  exact result to the nearest double, ties to the even significand, and a result of
  magnitude \<open>2^1024\<close> or more is infinite.

  \<open>roundEven n d\<close> is \<open>n / d\<close> rounded to the nearest integer, ties to even, for \<open>n \<ge> 0\<close>
  and \<open>d > 0\<close>. \<open>downScale a b\<close> is the least power of two \<open>u\<close> with \<open>a < 2^53 * b * u\<close>, and
  \<open>upScale a b\<close> the least power of two \<open>u\<close> with \<open>2^52 * b \<le> a * u\<close>.
\<close>

definition roundEven :: "int \<Rightarrow> int \<Rightarrow> int" where
  "roundEven n d =
     (let m = n div d; r = n mod d
      in if d < 2 * r \<or> (2 * r = d \<and> odd m) then m + 1 else m)"

function downScale :: "int \<Rightarrow> int \<Rightarrow> int" where
  "downScale a b = (if b \<le> 0 \<or> a < 2 ^ 53 * b then 1 else 2 * downScale a (2 * b))"
  by pat_completeness auto
termination
  by (relation "measure (\<lambda>(a, b). nat (a + 1 - 2 ^ 53 * b))") auto

declare downScale.simps [simp del]

function upScale :: "int \<Rightarrow> int \<Rightarrow> int" where
  "upScale a b = (if a \<le> 0 \<or> 2 ^ 52 * b \<le> a then 1 else 2 * upScale (2 * a) b)"
  by pat_completeness auto
termination
  by (relation "measure (\<lambda>(a, b). nat (2 ^ 52 * b - a))") auto

declare upScale.simps [simp del]

text \<open>The double nearest to an integer.\<close>

definition toDouble :: "int \<Rightarrow> jsnum" where
  "toDouble n =
    (let u = downScale \<bar>n\<bar> 1;
         v = roundEven \<bar>n\<bar> u * u
     in if 2 ^ 1024 \<le> v then (if n < 0 then NegInf else PosInf)
        else Num (if n < 0 then - v else v))"

text \<open>\<^verbatim>\<open>x + y\<close>, \<^verbatim>\<open>x - y\<close> and \<^verbatim>\<open>x * y\<close>.\<close>

fun negNum :: "jsnum \<Rightarrow> jsnum" where
  "negNum (Num a) = Num (- a)"
| "negNum PosInf = NegInf"
| "negNum NegInf = PosInf"
| "negNum NaN = NaN"

fun addNum :: "jsnum \<Rightarrow> jsnum \<Rightarrow> jsnum" where
  "addNum (Num a) (Num b) = toDouble (a + b)"
| "addNum NaN y = NaN"
| "addNum x NaN = NaN"
| "addNum PosInf NegInf = NaN"
| "addNum NegInf PosInf = NaN"
| "addNum PosInf y = PosInf"
| "addNum NegInf y = NegInf"
| "addNum (Num a) y = y"

definition subNum :: "jsnum \<Rightarrow> jsnum \<Rightarrow> jsnum" where
  "subNum x y = addNum x (negNum y)"

fun signOf :: "jsnum \<Rightarrow> int" where
  "signOf (Num a) = sgn a"
| "signOf PosInf = 1"
| "signOf NegInf = - 1"
| "signOf NaN = 0"

fun mulNum :: "jsnum \<Rightarrow> jsnum \<Rightarrow> jsnum" where
  "mulNum (Num a) (Num b) = toDouble (a * b)"
| "mulNum NaN y = NaN"
| "mulNum x NaN = NaN"
| "mulNum x y =
     (if signOf x * signOf y = 0 then NaN
      else if 0 < signOf x * signOf y then PosInf else NegInf)"

text \<open>\<^verbatim>\<open>Math.max(x, y)\<close>, \<^verbatim>\<open>Math.min(x, y)\<close> and \<^verbatim>\<open>x < y\<close>; a comparison with \<^verbatim>\<open>NaN\<close> is false.\<close>

fun maxNum :: "jsnum \<Rightarrow> jsnum \<Rightarrow> jsnum" where
  "maxNum (Num a) (Num b) = Num (max a b)"
| "maxNum NaN y = NaN"
| "maxNum x NaN = NaN"
| "maxNum PosInf y = PosInf"
| "maxNum x PosInf = PosInf"
| "maxNum NegInf y = y"
| "maxNum x NegInf = x"

fun minNum :: "jsnum \<Rightarrow> jsnum \<Rightarrow> jsnum" where
  "minNum (Num a) (Num b) = Num (min a b)"
| "minNum NaN y = NaN"
| "minNum x NaN = NaN"
| "minNum NegInf y = NegInf"
| "minNum x NegInf = NegInf"
| "minNum PosInf y = y"
| "minNum x PosInf = x"

fun lessNum :: "jsnum \<Rightarrow> jsnum \<Rightarrow> bool" where
  "lessNum (Num a) (Num b) = (a < b)"
| "lessNum NaN y = False"
| "lessNum x NaN = False"
| "lessNum PosInf y = False"
| "lessNum x PosInf = True"
| "lessNum x NegInf = False"
| "lessNum NegInf y = True"

text \<open>
  \<^verbatim>\<open>a / b\<close> for integers \<open>a > 0\<close> and \<open>b > 0\<close>: the pair \<open>(n, k)\<close> stands for the double
  \<open>n / k\<close>, the quotient rounded to 53 significant bits, \<open>k\<close> a power of two. (A quotient
  below \<open>2^-1022\<close> keeps fewer bits in a double; its \<^verbatim>\<open>Math.ceil\<close> is 1 either way.)
\<close>

definition divDouble :: "int \<Rightarrow> int \<Rightarrow> int \<times> int" where
  "divDouble a b =
     (let k = upScale a b; j = downScale a b
      in (roundEven (a * k) (b * j) * j, k))"

subsection \<open>Values\<close>

datatype jsval =
    JUndefined
  | JNum jsnum
  | JStr string
  | JArr "jsval list"
  | JObj "(string \<times> jsval) list"

type_synonym jsobj = "(string \<times> jsval) list"

text \<open>\<^verbatim>\<open>obj[k]\<close> for an own property; an absent one is \<^verbatim>\<open>undefined\<close>.\<close>

definition getProp :: "jsobj \<Rightarrow> string \<Rightarrow> jsval" where
  "getProp obj k = (case map_of obj k of None \<Rightarrow> JUndefined | Some v \<Rightarrow> v)"

text \<open>
  \<^verbatim>\<open>obj[k] = v\<close> on an ordinary object: the key keeps its place when it exists and is appended
  otherwise. The one exception of the language is the key \<^verbatim>\<open>__proto__\<close>, which is an accessor
  of \<^verbatim>\<open>Object.prototype\<close>: assigning to it never creates an own property.
\<close>

definition js_set :: "string \<Rightarrow> 'v \<Rightarrow> (string \<times> 'v) list \<Rightarrow> (string \<times> 'v) list" where
  "js_set k v obj = (if k = ''__proto__'' then obj else AList.update k v obj)"

text \<open>Truthiness, as \<^verbatim>\<open>if (x)\<close>, \<^verbatim>\<open>x || y\<close> and \<^verbatim>\<open>x && y\<close> test it.\<close>

fun truthy :: "jsval \<Rightarrow> bool" where
  "truthy JUndefined = False"
| "truthy (JNum (Num n)) = (n \<noteq> 0)"
| "truthy (JNum PosInf) = True"
| "truthy (JNum NegInf) = True"
| "truthy (JNum NaN) = False"
| "truthy (JStr s) = (s \<noteq> [])"
| "truthy (JArr xs) = True"
| "truthy (JObj kvs) = True"

text \<open>\<^verbatim>\<open>typeof x === 'object'\<close>: arrays and objects (there is no \<^verbatim>\<open>null\<close> among the values).\<close>

fun isObject :: "jsval \<Rightarrow> bool" where
  "isObject (JArr xs) = True"
| "isObject (JObj kvs) = True"
| "isObject v = False"

subsection \<open>Conversion to string\<close>

definition digitChar :: "nat \<Rightarrow> char" where
  "digitChar d = ''0123456789'' ! d"

text \<open>The decimal digits of an integer \<open>n \<ge> 0\<close>.\<close>

function showNat :: "int \<Rightarrow> string" where
  "showNat n =
     (if n < 10 then [digitChar (nat n)] else showNat (n div 10) @ [digitChar (nat (n mod 10))])"
  by pat_completeness auto
termination
  by (relation "measure nat") auto

declare showNat.simps [simp del]

text \<open>
  \<^verbatim>\<open>String(x)\<close> of a number prints the decimal of fewest significant digits that reads back
  as the same double, the nearest to it when there are several and the one with the even
  last digit when two are as near; below \<open>2^53\<close> that is the integer itself. From \<open>10^21\<close>
  on the digits are printed with an exponent.

  \<open>candidates a u\<close> is that choice among the multiples of \<open>u\<close> next to \<open>a\<close>, if one of them
  reads back as \<open>a\<close>.
\<close>

definition candidates :: "int \<Rightarrow> int \<Rightarrow> int list" where
  "candidates a u =
    (let lo = (a div u) * u; hi = lo + u;
         okLo = (toDouble lo = Num a);
         okHi = (toDouble hi = Num a)
     in if okLo \<and> okHi then
          (if a - lo < hi - a then [lo]
           else if hi - a < a - lo then [hi]
           else if even (a div u) then [lo] else [hi])
        else if okLo then [lo]
        else if okHi then [hi]
        else [])"

definition shortest :: "int \<Rightarrow> int" where
  "shortest a =
    (if a < 2 ^ 53 then a
     else case concat (map (\<lambda>p. candidates a (10 ^ p)) (rev [0..<length (showNat a)])) of
            [] \<Rightarrow> a
          | v # _ \<Rightarrow> v)"

function stripZeros :: "int \<Rightarrow> int" where
  "stripZeros n = (if n \<le> 0 \<or> n mod 10 \<noteq> 0 then n else stripZeros (n div 10))"
  by pat_completeness auto
termination
  by (relation "measure nat") auto

declare stripZeros.simps [simp del]

definition showDouble :: "int \<Rightarrow> string" where
  "showDouble a =
    (let v = shortest a; n = length (showNat v)
     in if n \<le> 21 then showNat v
        else let ds = showNat (stripZeros v)
             in hd ds # (if tl ds = [] then [] else CHR ''.'' # tl ds)
                  @ ''e+'' @ showNat (int n - 1))"

fun numToString :: "jsnum \<Rightarrow> string" where
  "numToString (Num i) = (if i < 0 then CHR ''-'' # showDouble (- i) else showDouble i)"
| "numToString PosInf = ''Infinity''"
| "numToString NegInf = ''-Infinity''"
| "numToString NaN = ''NaN''"

text \<open>
  \<^verbatim>\<open>String(x)\<close>: an array is its elements joined by commas, an \<^verbatim>\<open>undefined\<close> element giving
  the empty string; a plain object is \<^verbatim>\<open>[object Object]\<close>.
\<close>

fun toString :: "jsval \<Rightarrow> string"
  and joinElems :: "jsval list \<Rightarrow> string" where
  "toString JUndefined = ''undefined''"
| "toString (JNum n) = numToString n"
| "toString (JStr s) = s"
| "toString (JArr xs) = joinElems xs"
| "toString (JObj kvs) = ''[object Object]''"
| "joinElems [] = []"
| "joinElems [x] = (if x = JUndefined then [] else toString x)"
| "joinElems (x # y # ys) =
     (if x = JUndefined then [] else toString x) @ CHR '','' # joinElems (y # ys)"

subsection \<open>White space\<close>

text \<open>
  The characters \<^verbatim>\<open>String.prototype.trim\<close> and \<^verbatim>\<open>parseInt\<close> strip: TAB, LF, VT, FF, CR,
  SP, U+00A0, U+1680, U+2000 to U+200A, U+2028, U+2029, U+202F, U+205F, U+3000 and U+FEFF,
  each as its UTF-8 bytes.
\<close>

definition whiteSpace :: "string list" where
  "whiteSpace =
    [[CHR 0x09], [CHR 0x0A], [CHR 0x0B], [CHR 0x0C], [CHR 0x0D], [CHR 0x20],
     [CHR 0xC2, CHR 0xA0], [CHR 0xE1, CHR 0x9A, CHR 0x80],
     [CHR 0xE2, CHR 0x80, CHR 0x80], [CHR 0xE2, CHR 0x80, CHR 0x81],
     [CHR 0xE2, CHR 0x80, CHR 0x82], [CHR 0xE2, CHR 0x80, CHR 0x83],
     [CHR 0xE2, CHR 0x80, CHR 0x84], [CHR 0xE2, CHR 0x80, CHR 0x85],
     [CHR 0xE2, CHR 0x80, CHR 0x86], [CHR 0xE2, CHR 0x80, CHR 0x87],
     [CHR 0xE2, CHR 0x80, CHR 0x88], [CHR 0xE2, CHR 0x80, CHR 0x89],
     [CHR 0xE2, CHR 0x80, CHR 0x8A], [CHR 0xE2, CHR 0x80, CHR 0xA8],
     [CHR 0xE2, CHR 0x80, CHR 0xA9], [CHR 0xE2, CHR 0x80, CHR 0xAF],
     [CHR 0xE2, CHR 0x81, CHR 0x9F], [CHR 0xE3, CHR 0x80, CHR 0x80],
     [CHR 0xEF, CHR 0xBB, CHR 0xBF]]"

text \<open>The number of bytes of the character of \<open>ws\<close> that \<open>s\<close> starts with, or 0.\<close>

definition leading :: "string list \<Rightarrow> string \<Rightarrow> nat" where
  "leading ws s = (case filter (\<lambda>w. w \<noteq> [] \<and> take (length w) s = w) ws of
                     [] \<Rightarrow> 0 | w # _ \<Rightarrow> length w)"

function strip :: "string list \<Rightarrow> string \<Rightarrow> string" where
  "strip ws s = (if leading ws s = 0 then s else strip ws (drop (leading ws s) s))"
  by pat_completeness auto
termination
proof (relation "measure (\<lambda>(ws, s). length s)")
  show "wf (measure (\<lambda>(ws, s). length s))"
    by simp
next
  fix ws :: "string list" and s :: string
  assume nz: "leading ws s \<noteq> 0"
  then obtain w rest where "filter (\<lambda>w. w \<noteq> [] \<and> take (length w) s = w) ws = w # rest"
    by (cases "filter (\<lambda>w. w \<noteq> [] \<and> take (length w) s = w) ws") (auto simp: leading_def)
  then have "w \<in> set (filter (\<lambda>w. w \<noteq> [] \<and> take (length w) s = w) ws)"
    by simp
  then have "w \<noteq> []" and "take (length w) s = w"
    by auto
  then have "s \<noteq> []"
    by auto
  with nz show "((ws, drop (leading ws s) s), (ws, s)) \<in> measure (\<lambda>(ws, s). length s)"
    by simp
qed

declare strip.simps [simp del]

definition trimStart :: "string \<Rightarrow> string" where
  "trimStart s = strip whiteSpace s"

definition trimEnd :: "string \<Rightarrow> string" where
  "trimEnd s = rev (strip (map rev whiteSpace) (rev s))"

definition trim :: "string \<Rightarrow> string" where
  "trim s = trimEnd (trimStart s)"

subsection \<open>parseInt\<close>

text \<open>
  \<^verbatim>\<open>parseInt(x)\<close> with no radix: the argument is converted to a string, leading white space
  and one sign are dropped, a prefix \<^verbatim>\<open>0x\<close> or \<^verbatim>\<open>0X\<close> selects radix 16, and the longest run
  of digits is read; no digit gives \<^verbatim>\<open>NaN\<close>. The result is the double nearest to the
  integer read (beyond 20 decimal digits ECMAScript leaves the rounding to the
  implementation; V8 rounds the exact value, as here).
\<close>

definition digitOf :: "char \<Rightarrow> nat" where
  "digitOf c = (let n = (of_char c :: nat) in
     if 48 \<le> n \<and> n \<le> 57 then n - 48
     else if 97 \<le> n \<and> n \<le> 122 then n - 87
     else if 65 \<le> n \<and> n \<le> 90 then n - 55
     else 36)"

definition parseInt :: "jsval \<Rightarrow> jsnum" where
  "parseInt v =
    (let s = trimStart (toString v);
         neg = (take 1 s = ''-'');
         s1 = (if take 1 s = ''-'' \<or> take 1 s = ''+'' then drop 1 s else s);
         hex = (take 2 s1 = ''0x'' \<or> take 2 s1 = ''0X'');
         radix = (if hex then 16 else 10 :: int);
         s2 = (if hex then drop 2 s1 else s1);
         ds = takeWhile (\<lambda>c. int (digitOf c) < radix) s2;
         n = foldl (\<lambda>a c. a * radix + int (digitOf c)) 0 ds
     in if ds = [] then NaN else toDouble (if neg then - n else n))"

text \<open>\<^verbatim>\<open>parseInt(x) || d\<close>: \<^verbatim>\<open>NaN\<close> and 0 are falsy.\<close>

definition orDefault :: "jsnum \<Rightarrow> int \<Rightarrow> jsnum" where
  "orDefault x d = (if x = NaN \<or> x = Num 0 then Num d else x)"

section \<open>Configuration, request and collaborators\<close>

text \<open>
  \<^verbatim>\<open>options\<close> is what the calling route passes; \<^verbatim>\<open>config = { ...defaults, ...options }\<close>
  takes each field from \<^verbatim>\<open>options\<close> when it is there and from \<^verbatim>\<open>defaults\<close> otherwise.
  \<^verbatim>\<open>searchFields\<close>, \<^verbatim>\<open>dateField\<close> and \<^verbatim>\<open>populate\<close> have no default.
\<close>

record options =
  opt_defaultLimit :: "int option"
  opt_maxLimit :: "int option"
  opt_defaultSort :: "string option"
  opt_allowedSortFields :: "string list option"
  opt_allowedFilterFields :: "string list option"
  opt_searchFields :: "string list option"
  opt_dateField :: "string option"
  opt_populate :: jsval

record config =
  defaultLimit :: int
  maxLimit :: int
  defaultSort :: string
  allowedSortFields :: "string list"
  allowedFilterFields :: "string list"
  searchFields :: "string list option"
  dateField :: "string option"
  populate :: jsval

definition defaults :: config where
  "defaults = \<lparr> defaultLimit = 100, maxLimit = 100, defaultSort = ''createdAt'',
                allowedSortFields = [], allowedFilterFields = [],
                searchFields = None, dateField = None, populate = JUndefined \<rparr>"

definition mergeConfig :: "options \<Rightarrow> config" where
  "mergeConfig opts =
    \<lparr> defaultLimit = (case opt_defaultLimit opts of None \<Rightarrow> defaultLimit defaults | Some v \<Rightarrow> v),
      maxLimit = (case opt_maxLimit opts of None \<Rightarrow> maxLimit defaults | Some v \<Rightarrow> v),
      defaultSort = (case opt_defaultSort opts of None \<Rightarrow> defaultSort defaults | Some v \<Rightarrow> v),
      allowedSortFields =
        (case opt_allowedSortFields opts of None \<Rightarrow> allowedSortFields defaults | Some v \<Rightarrow> v),
      allowedFilterFields =
        (case opt_allowedFilterFields opts of None \<Rightarrow> allowedFilterFields defaults | Some v \<Rightarrow> v),
      searchFields = opt_searchFields opts,
      dateField = opt_dateField opts,
      populate = opt_populate opts \<rparr>"

text \<open>
  The request: \<^verbatim>\<open>req.query\<close> with its keys in the order \<^verbatim>\<open>Object.keys\<close> lists them,
  \<^verbatim>\<open>req.protocol\<close>, \<^verbatim>\<open>req.get('host')\<close>, \<^verbatim>\<open>req.baseUrl\<close> and \<^verbatim>\<open>req.path\<close>.
\<close>

record request =
  query :: jsobj
  protocol :: string
  host :: string
  baseUrl :: string
  reqPath :: string

text \<open>
  What can be thrown inside the \<^verbatim>\<open>try\<close> block: a \<^verbatim>\<open>TypeError\<close> for a method that the
  value does not have, the \<^verbatim>\<open>SyntaxError\<close> of \<^verbatim>\<open>new RegExp\<close>, and the rejection of a
  collaborator with its message. The \<^verbatim>\<open>catch\<close> block rethrows every one of them as
  \<^verbatim>\<open>new Error(`Query Builder Hatasi: ${error.message}`)\<close>.
\<close>

datatype cause = NotAFunction string | InvalidRegExp string | Rejected string

datatype error = QueryBuilderError cause

text \<open>A \<^verbatim>\<open>Date\<close> object: its time value in milliseconds, or \<^verbatim>\<open>Invalid Date\<close>.\<close>

datatype jsdate = Date int | InvalidDate

text \<open>
  The values stored in \<^verbatim>\<open>filterObject\<close>: a plain value (exact match), \<^verbatim>\<open>{ $in: values }\<close>,
  \<^verbatim>\<open>{ $regex: new RegExp(source, 'i') }\<close>, the list under \<^verbatim>\<open>$or\<close> of
  \<^verbatim>\<open>{ [field]: { $regex: new RegExp(source, 'i') } }\<close>, and the date range with its optional
  \<^verbatim>\<open>$gte\<close> and \<^verbatim>\<open>$lte\<close>.
\<close>

datatype pred =
    PExact jsval
  | PIn "string list"
  | PRegex string
  | POr "(string \<times> string) list"
  | PRange "jsdate option" "jsdate option"

type_synonym filterSpec = "(string \<times> pred) list"
type_synonym sortSpec = "(string \<times> int) list"

text \<open>
  The collaborators the code calls and does not define: \<^verbatim>\<open>Date\<close> parsing and the
  \<^verbatim>\<open>RegExp\<close> compiler of the runtime,
  \<^verbatim>\<open>Categories.findOne({ name }).collation({ locale: 'tr', strength: 1 })\<close> (rejected,
  \<^verbatim>\<open>null\<close>, or the \<^verbatim>\<open>_id\<close> of the document found), \<^verbatim>\<open>Model.countDocuments(filter)\<close>, and
  \<^verbatim>\<open>Model.find(filter)\<close> with its \<^verbatim>\<open>populate\<close>, \<^verbatim>\<open>sort\<close>, \<^verbatim>\<open>skip\<close>, \<^verbatim>\<open>limit\<close> and
  \<^verbatim>\<open>exec\<close>.
\<close>

record env =
  dateParse :: "string \<Rightarrow> int option"
  regexpCompiles :: "string \<Rightarrow> bool"
  categoriesFindOne :: "string \<Rightarrow> cause + jsval option"
  countDocuments :: "filterSpec \<Rightarrow> cause + nat"
  findExec :: "filterSpec \<Rightarrow> jsval list \<Rightarrow> sortSpec \<Rightarrow> jsnum \<Rightarrow> jsnum \<Rightarrow> cause + jsval list"

text \<open>Sequencing of steps that may throw.\<close>

definition andThen :: "'e + 'a \<Rightarrow> ('a \<Rightarrow> 'e + 'b) \<Rightarrow> 'e + 'b" where
  "andThen r k = (case r of Inl e \<Rightarrow> Inl e | Inr x \<Rightarrow> k x)"

fun forEach :: "('a \<Rightarrow> 's \<Rightarrow> 'e + 's) \<Rightarrow> 'a list \<Rightarrow> 's \<Rightarrow> 'e + 's" where
  "forEach f [] s = Inr s"
| "forEach f (x # xs) s = andThen (f x s) (forEach f xs)"

fun mapE :: "('a \<Rightarrow> 'e + 'b) \<Rightarrow> 'a list \<Rightarrow> 'e + 'b list" where
  "mapE f [] = Inr []"
| "mapE f (x # xs) = andThen (f x) (\<lambda>y. andThen (mapE f xs) (\<lambda>ys. Inr (y # ys)))"

section \<open>1. Pagination parameters\<close>

text \<open>
  \<^verbatim>\<open>Math.max(1, parseInt(req.query.page) || 1)\<close>,
  \<^verbatim>\<open>Math.min(Math.max(1, parseInt(req.query.limit) || config.defaultLimit), config.maxLimit)\<close>
  and \<^verbatim>\<open>(page - 1) * limit\<close>, each in double arithmetic. The limits of the configuration
  are numbers that hold an integer.
\<close>

definition page :: "request \<Rightarrow> jsnum" where
  "page req = maxNum (Num 1) (orDefault (parseInt (getProp (query req) ''page'')) 1)"

definition limit :: "config \<Rightarrow> request \<Rightarrow> jsnum" where
  "limit cfg req =
     minNum (maxNum (Num 1) (orDefault (parseInt (getProp (query req) ''limit'')) (defaultLimit cfg)))
            (Num (maxLimit cfg))"

definition skip :: "config \<Rightarrow> request \<Rightarrow> jsnum" where
  "skip cfg req = mulNum (subNum (page req) (Num 1)) (limit cfg req)"

section \<open>2. Sorting\<close>

text \<open>
  \<^verbatim>\<open>sortField.startsWith('-')\<close> exists on strings only; an array, an object or a number
  under \<^verbatim>\<open>sort\<close> makes the call throw.
\<close>

definition isDescending :: "string \<Rightarrow> bool" where
  "isDescending sortField = (take 1 sortField = ''-'')"

definition fieldNameOf :: "string \<Rightarrow> string" where
  "fieldNameOf sortField = (if isDescending sortField then drop 1 sortField else sortField)"

definition sortObject :: "config \<Rightarrow> request \<Rightarrow> cause + sortSpec" where
  "sortObject cfg req =
    (let sort = getProp (query req) ''sort'' in
     if truthy sort then
       (case sort of
          JStr sortField \<Rightarrow>
            if allowedSortFields cfg = [] \<or> fieldNameOf sortField \<in> set (allowedSortFields cfg)
            then Inr (js_set (fieldNameOf sortField) (if isDescending sortField then - 1 else 1) [])
            else Inr (js_set (defaultSort cfg) (- 1) [])
        | _ \<Rightarrow> Inl (NotAFunction ''sortField.startsWith''))
     else Inr (js_set (defaultSort cfg) (- 1) []))"

section \<open>3. Filtering\<close>

subsection \<open>The filter source\<close>

text \<open>
  \<^verbatim>\<open>key.match(/^filter\[(.+)\]$/)\<close>: the key starts with \<^verbatim>\<open>filter[\<close>, ends with \<^verbatim>\<open>]\<close>, and
  what lies between is not empty and has no line terminator (LF, CR, U+2028, U+2029), which
  \<^verbatim>\<open>.\<close> does not match.
\<close>

definition lineTerminators :: "string list" where
  "lineTerminators =
     [[CHR 0x0A], [CHR 0x0D], [CHR 0xE2, CHR 0x80, CHR 0xA8], [CHR 0xE2, CHR 0x80, CHR 0xA9]]"

definition hasLineTerminator :: "string \<Rightarrow> bool" where
  "hasLineTerminator s = list_ex (\<lambda>i. 0 < leading lineTerminators (drop i s)) [0..<length s]"

definition matchFilterKey :: "string \<Rightarrow> string option" where
  "matchFilterKey key =
    (let inner = butlast (drop 7 key) in
     if take 7 key = ''filter['' \<and> 8 \<le> length key \<and> last key = CHR '']''
        \<and> inner \<noteq> [] \<and> \<not> hasLineTerminator inner
     then Some inner else None)"

definition manualFilter :: "jsobj \<Rightarrow> jsobj" where
  "manualFilter q =
     fold (\<lambda>key mf. case matchFilterKey key of
                       Some fieldName \<Rightarrow> js_set fieldName (getProp q key) mf
                     | None \<Rightarrow> mf)
          (map fst q) []"

definition filterToProcess :: "request \<Rightarrow> jsval" where
  "filterToProcess req =
    (let f = getProp (query req) ''filter'' in
     if \<not> truthy f \<or> \<not> isObject f then
       (let m = manualFilter (query req) in if m \<noteq> [] then JObj m else f)
     else f)"

text \<open>
  The own enumerable properties of a value: those of an object, the indices of an array,
  none for a primitive. \<^verbatim>\<open>Object.keys\<close> lists their keys.
\<close>

fun ownEntries :: "jsval \<Rightarrow> jsobj" where
  "ownEntries (JObj kvs) = kvs"
| "ownEntries (JArr xs) = zip (map showNat [0..<length xs]) xs"
| "ownEntries v = []"

subsection \<open>Values\<close>

fun splitOn :: "char \<Rightarrow> string \<Rightarrow> string list" where
  "splitOn d [] = [[]]"
| "splitOn d (c # cs) =
     (if c = d then [] # splitOn d cs
      else (case splitOn d cs of w # ws \<Rightarrow> (c # w) # ws | [] \<Rightarrow> [[c]]))"

text \<open>
  \<^verbatim>\<open>filterValue.replace(/[.*+?^${}()|[\]\\]/g, '\\$&')\<close>: a backslash goes before each of
  the fourteen characters of the class.
\<close>

definition metaChars :: "char list" where
  "metaChars = ''.*+?^${}()|[]'' @ [CHR 0x5C]"

definition escapeRegex :: "string \<Rightarrow> string" where
  "escapeRegex s = concat (map (\<lambda>c. if c \<in> set metaChars then [CHR 0x5C, c] else [c]) s)"

text \<open>
  Reading a pattern that is a literal: a character outside the class stands for itself, a
  backslash followed by a character of the class stands for that character, and anything
  else (a bare metacharacter, another escape) makes the pattern something other than a
  literal.
\<close>

fun literalOf :: "string \<Rightarrow> string option" where
  "literalOf [] = Some []"
| "literalOf [c] = (if c \<in> set metaChars then None else Some [c])"
| "literalOf (c # d # cs) =
     (if c = CHR 0x5C then
        (if d \<in> set metaChars then map_option ((#) d) (literalOf cs) else None)
      else if c \<in> set metaChars then None
      else map_option ((#) c) (literalOf (d # cs)))"

text \<open>
  \<^verbatim>\<open>new RegExp(source, 'i')\<close> throws on a source that is not a pattern. A literal pattern is
  one in every engine; for any other source the runtime decides.
\<close>

definition newRegExp :: "env \<Rightarrow> string \<Rightarrow> cause + string" where
  "newRegExp e source =
     (if literalOf source \<noteq> None \<or> regexpCompiles e source then Inr source
      else Inl (InvalidRegExp source))"

subsection \<open>Category name\<close>

definition applyCategories :: "env \<Rightarrow> request \<Rightarrow> filterSpec \<Rightarrow> cause + filterSpec" where
  "applyCategories e req filterObject =
    (let c = getProp (query req) ''categories'' in
     if truthy c then
       (case c of
          JStr s \<Rightarrow>
            andThen (categoriesFindOne e (trim s))
              (\<lambda>categories. case categories of
                 Some cid \<Rightarrow> Inr (js_set ''categoriesIds'' (PExact cid) filterObject)
               | None \<Rightarrow> Inr filterObject)
        | _ \<Rightarrow> Inl (NotAFunction ''req.query.categories.trim''))
     else Inr filterObject)"

subsection \<open>Field filters\<close>

definition filterStep ::
  "env \<Rightarrow> config \<Rightarrow> jsval \<Rightarrow> string \<Rightarrow> filterSpec \<Rightarrow> cause + filterSpec" where
  "filterStep e cfg ftp field filterObject =
    (if allowedFilterFields cfg = [] \<or> field \<in> set (allowedFilterFields cfg) then
       (let filterValue = getProp (ownEntries ftp) field in
        case filterValue of
          JStr s \<Rightarrow>
            if CHR '','' \<in> set s then
              Inr (js_set field (PIn (map trim (splitOn (CHR '','') s))) filterObject)
            else if field = ''status'' then
              Inr (js_set field (PExact filterValue) filterObject)
            else
              andThen (newRegExp e (escapeRegex s))
                (\<lambda>r. Inr (js_set field (PRegex r) filterObject))
        | _ \<Rightarrow> Inr (js_set field (PExact filterValue) filterObject))
     else Inr filterObject)"

definition applyFilters :: "env \<Rightarrow> config \<Rightarrow> request \<Rightarrow> filterSpec \<Rightarrow> cause + filterSpec" where
  "applyFilters e cfg req filterObject =
    (let ftp = filterToProcess req in
     if truthy ftp \<and> isObject ftp then
       forEach (filterStep e cfg ftp) (map fst (ownEntries ftp)) filterObject
     else Inr filterObject)"

section \<open>4. Global search\<close>

text \<open>
  \<^verbatim>\<open>if (req.query.search && options.searchFields)\<close>: an array is truthy also when it is
  empty. The pattern is the search term as it came.
\<close>

definition applySearch :: "env \<Rightarrow> config \<Rightarrow> request \<Rightarrow> filterSpec \<Rightarrow> cause + filterSpec" where
  "applySearch e cfg req filterObject =
    (let searchTerm = getProp (query req) ''search'' in
     case searchFields cfg of
       Some sfs \<Rightarrow>
         if truthy searchTerm then
           andThen (mapE (\<lambda>field. andThen (newRegExp e (toString searchTerm))
                                    (\<lambda>r. Inr (field, r))) sfs)
             (\<lambda>searchConditions. Inr (js_set ''$or'' (POr searchConditions) filterObject))
         else Inr filterObject
     | None \<Rightarrow> Inr filterObject)"

section \<open>5. Date range\<close>

text \<open>
  \<^verbatim>\<open>new Date(x)\<close> never throws: a string that does not parse gives \<^verbatim>\<open>Invalid Date\<close>. A
  number is taken as the time value, within the range of \<^verbatim>\<open>TimeClip\<close>.
\<close>

definition newDate :: "env \<Rightarrow> jsval \<Rightarrow> jsdate" where
  "newDate e v =
    (case v of
       JNum (Num n) \<Rightarrow> if \<bar>n\<bar> \<le> 8640000000000000 then Date n else InvalidDate
     | JNum PosInf \<Rightarrow> InvalidDate
     | JNum NegInf \<Rightarrow> InvalidDate
     | JNum NaN \<Rightarrow> InvalidDate
     | JUndefined \<Rightarrow> InvalidDate
     | _ \<Rightarrow> (case dateParse e (toString v) of Some t \<Rightarrow> Date t | None \<Rightarrow> InvalidDate))"

definition theDateField :: "config \<Rightarrow> string" where
  "theDateField cfg =
     (case dateField cfg of None \<Rightarrow> ''createdAt'' | Some f \<Rightarrow> if f = [] then ''createdAt'' else f)"

definition applyDateRange :: "env \<Rightarrow> config \<Rightarrow> request \<Rightarrow> filterSpec \<Rightarrow> filterSpec" where
  "applyDateRange e cfg req filterObject =
    (let date_from = getProp (query req) ''date_from'';
         date_to = getProp (query req) ''date_to''
     in if truthy date_from \<or> truthy date_to then
          js_set (theDateField cfg)
            (PRange (if truthy date_from then Some (newDate e date_from) else None)
                    (if truthy date_to then Some (newDate e date_to) else None))
            filterObject
        else filterObject)"

text \<open>The filter handed to the store: sections 3 to 5 in the order of the source.\<close>

definition buildFilter :: "env \<Rightarrow> config \<Rightarrow> request \<Rightarrow> cause + filterSpec" where
  "buildFilter e cfg req =
     andThen (applyCategories e req [])
       (\<lambda>f1. andThen (applyFilters e cfg req f1)
         (\<lambda>f2. andThen (applySearch e cfg req f2)
           (\<lambda>f3. Inr (applyDateRange e cfg req f3))))"

section \<open>6 and 7. Populate and execution\<close>

text \<open>
  \<^verbatim>\<open>options.populate\<close>: each element of an array, or the one descriptor, when it is truthy.
\<close>

definition populates :: "config \<Rightarrow> jsval list" where
  "populates cfg =
     (if truthy (populate cfg) then (case populate cfg of JArr pops \<Rightarrow> pops | pop \<Rightarrow> [pop])
      else [])"

section \<open>8. Pagination arithmetic\<close>

text \<open>
  \<^verbatim>\<open>Math.ceil(totalCount / limit)\<close>. A zero limit gives \<^verbatim>\<open>Infinity\<close>, or \<^verbatim>\<open>NaN\<close> for
  \<^verbatim>\<open>0 / 0\<close>; otherwise the quotient is a double, and that double is rounded up to an
  integer. The count is the number the store answers.
\<close>

definition lastPage :: "nat \<Rightarrow> jsnum \<Rightarrow> jsnum" where
  "lastPage totalCount lmt =
     (case lmt of
        Num l \<Rightarrow>
          if l = 0 then (if totalCount = 0 then NaN else PosInf)
          else if totalCount = 0 then Num 0
          else (case divDouble (int totalCount) \<bar>l\<bar> of
                  (n, k) \<Rightarrow> if 0 < l then Num (- ((- n) div k)) else Num (- (n div k)))
      | PosInf \<Rightarrow> Num 0
      | NegInf \<Rightarrow> Num 0
      | NaN \<Rightarrow> NaN)"

section \<open>9. URL building\<close>

definition hexDigit :: "nat \<Rightarrow> char" where
  "hexDigit d = ''0123456789ABCDEF'' ! d"

text \<open>
  \<^verbatim>\<open>encodeURIComponent\<close> keeps letters, digits and \<^verbatim>\<open>- _ . ! ~ * ' ( )\<close>; every other
  byte of the UTF-8 encoding becomes \<^verbatim>\<open>%XX\<close>.
\<close>

definition unreserved :: "char \<Rightarrow> bool" where
  "unreserved c =
    (let n = (of_char c :: nat) in
     (65 \<le> n \<and> n \<le> 90) \<or> (97 \<le> n \<and> n \<le> 122) \<or> (48 \<le> n \<and> n \<le> 57)
     \<or> c \<in> set (''-_.!~*()'' @ [CHR 0x27]))"

definition encodeByte :: "char \<Rightarrow> string" where
  "encodeByte c =
     (if unreserved c then [c]
      else [CHR ''%'', hexDigit ((of_char c :: nat) div 16), hexDigit ((of_char c :: nat) mod 16)])"

definition encodeURIComponent :: "jsval \<Rightarrow> string" where
  "encodeURIComponent v = concat (map encodeByte (toString v))"

fun joinWith :: "string \<Rightarrow> string list \<Rightarrow> string" where
  "joinWith sep [] = []"
| "joinWith sep [x] = x"
| "joinWith sep (x # y # ys) = x @ sep @ joinWith sep (y # ys)"

text \<open>
  \<^verbatim>\<open>params = { ...queryParams, page: pageNum }\<close>: an object literal defines its properties,
  so \<^verbatim>\<open>page\<close> keeps its place when the request had it and comes last otherwise.
\<close>

definition queryString :: "request \<Rightarrow> jsnum \<Rightarrow> string" where
  "queryString req pageNum =
    (let params = AList.update ''page'' (JNum pageNum) (query req) in
     joinWith ''&''
       (map (\<lambda>key. key @ ''='' @ encodeURIComponent (getProp params key))
            (filter (\<lambda>key. getProp params key \<noteq> JUndefined \<and> getProp params key \<noteq> JStr [])
                    (map fst params))))"

definition baseUrlOf :: "request \<Rightarrow> string" where
  "baseUrlOf req = protocol req @ ''://'' @ host req @ baseUrl req @ reqPath req"

definition buildUrl :: "request \<Rightarrow> jsnum \<Rightarrow> string" where
  "buildUrl req pageNum = baseUrlOf req @ ''?'' @ queryString req pageNum"

section \<open>10. The response\<close>

record query_info =
  filters_applied :: nat
  sort_by :: string
  sort_direction :: string

text \<open>The fields \<^verbatim>\<open>from\<close> and \<^verbatim>\<open>to\<close> of the source are \<open>from_no\<close> and \<open>to_no\<close> here.\<close>

record response =
  data :: "jsval list"
  total :: nat
  per_page :: jsnum
  current_page :: jsnum
  last_page :: jsnum
  from_no :: "jsnum option"
  to_no :: "jsnum option"
  path :: string
  first_page_url :: string
  last_page_url :: string
  next_page_url :: "string option"
  prev_page_url :: "string option"
  current_page_url :: string
  query_info :: query_info

definition respond ::
  "config \<Rightarrow> request \<Rightarrow> sortSpec \<Rightarrow> filterSpec \<Rightarrow> nat \<Rightarrow> jsval list \<Rightarrow> response" where
  "respond cfg req sortObj filterObject totalCount docs =
    (let pg = page req; lmt = limit cfg req; sk = skip cfg req;
         lastPg = lastPage totalCount lmt;
         hasNextPage = lessNum pg lastPg;
         hasPrevPage = lessNum (Num 1) pg
     in \<lparr> data = docs,
          total = totalCount,
          per_page = lmt,
          current_page = pg,
          last_page = lastPg,
          from_no = (if totalCount > 0 then Some (addNum sk (Num 1)) else None),
          to_no = (if totalCount > 0
                   then Some (minNum (addNum sk lmt) (Num (int totalCount))) else None),
          path = baseUrlOf req,
          first_page_url = buildUrl req (Num 1),
          last_page_url = buildUrl req lastPg,
          next_page_url = (if hasNextPage then Some (buildUrl req (addNum pg (Num 1))) else None),
          prev_page_url = (if hasPrevPage then Some (buildUrl req (subNum pg (Num 1))) else None),
          current_page_url = buildUrl req pg,
          query_info =
            \<lparr> filters_applied = length (map fst filterObject),
              sort_by = (case map fst sortObj of
                           [] \<Rightarrow> defaultSort cfg
                         | k # _ \<Rightarrow> if k = [] then defaultSort cfg else k),
              sort_direction = (case map snd sortObj of
                                  [] \<Rightarrow> ''desc''
                                | d # _ \<Rightarrow> if d = 1 then ''asc'' else ''desc'') \<rparr> \<rparr>)"

section \<open>The query builder\<close>

text \<open>
  \<^verbatim>\<open>queryBuilder(Model, req, options)\<close>. The steps run in the order of the source: the sort,
  the filter, \<^verbatim>\<open>countDocuments\<close>, the fetch, the response. Whatever is thrown on the way is
  caught and rethrown wrapped; no response is returned then.
\<close>

definition run :: "env \<Rightarrow> config \<Rightarrow> request \<Rightarrow> cause + response" where
  "run e cfg req =
     andThen (sortObject cfg req)
       (\<lambda>sortObj. andThen (buildFilter e cfg req)
         (\<lambda>filterObject. andThen (countDocuments e filterObject)
           (\<lambda>totalCount.
              andThen (findExec e filterObject (populates cfg) sortObj (skip cfg req) (limit cfg req))
                (\<lambda>docs. Inr (respond cfg req sortObj filterObject totalCount docs)))))"

definition queryBuilder :: "env \<Rightarrow> request \<Rightarrow> options \<Rightarrow> error + response" where
  "queryBuilder e req opts =
     (case run e (mergeConfig opts) req of
        Inl c \<Rightarrow> Inl (QueryBuilderError c)
      | Inr r \<Rightarrow> Inr r)"

section \<open>Vocabulary of the specification\<close>

text \<open>
  A field is accepted when the allowlist is empty or holds it. The predicate of an accepted
  field, in the words of the specification: set membership for a string with a comma, exact
  match for \<^verbatim>\<open>status\<close> and for every value that is not a string, a case-insensitive pattern
  of the escaped value otherwise.
\<close>

definition accepted :: "config \<Rightarrow> string \<Rightarrow> bool" where
  "accepted cfg field \<longleftrightarrow> allowedFilterFields cfg = [] \<or> field \<in> set (allowedFilterFields cfg)"

definition compiled :: "string \<Rightarrow> jsval \<Rightarrow> pred" where
  "compiled field v =
    (case v of
       JStr s \<Rightarrow> if CHR '','' \<in> set s then PIn (map trim (splitOn (CHR '','') s))
                 else if field = ''status'' then PExact v
                 else PRegex (escapeRegex s)
     | _ \<Rightarrow> PExact v)"

text \<open>
  Reading a query string back, as the query parsers do on flat keys: the parts between
  \<^verbatim>\<open>&\<close>, each cut at its first \<^verbatim>\<open>=\<close>, with \<^verbatim>\<open>+\<close> as a space and \<^verbatim>\<open>%XX\<close> as the byte.
\<close>

definition plusToSpace :: "string \<Rightarrow> string" where
  "plusToSpace s = map (\<lambda>c. if c = CHR ''+'' then CHR '' '' else c) s"

fun percentDecode :: "string \<Rightarrow> string" where
  "percentDecode (c # h # l # cs) =
     (if c = CHR ''%'' \<and> digitOf h < 16 \<and> digitOf l < 16
      then char_of (16 * digitOf h + digitOf l) # percentDecode cs
      else c # percentDecode (h # l # cs))"
| "percentDecode cs = cs"

definition splitFirst :: "char \<Rightarrow> string \<Rightarrow> string \<times> string" where
  "splitFirst d s = (takeWhile (\<lambda>c. c \<noteq> d) s, drop 1 (dropWhile (\<lambda>c. c \<noteq> d) s))"

definition parseQueryString :: "string \<Rightarrow> (string \<times> string) list" where
  "parseQueryString qs =
     map (\<lambda>part. (percentDecode (plusToSpace (fst (splitFirst (CHR ''='') part))),
                  percentDecode (plusToSpace (snd (splitFirst (CHR ''='') part)))))
         (filter (\<lambda>part. part \<noteq> []) (splitOn (CHR ''&'') qs))"

text \<open>
  A key that reads back as itself: not empty, and free of the characters the reader gives
  a meaning to.
\<close>

definition safeKey :: "string \<Rightarrow> bool" where
  "safeKey k \<longleftrightarrow>
     k \<noteq> [] \<and> (\<forall>c \<in> set k. c \<noteq> CHR ''&'' \<and> c \<noteq> CHR ''='' \<and> c \<noteq> CHR ''+'' \<and> c \<noteq> CHR ''%'')"


section \<open>Example routes, stores and requests\<close>

text \<open>
  The options of the plants route and of the users route (\<^verbatim>\<open>routes/users.js\<close>), and a call
  with no options. A store that answers every count with \<open>n\<close> and every fetch with no
  document, and one that, as Mongoose does for a path of type \<^verbatim>\<open>Date\<close>, rejects a filter
  holding an \<^verbatim>\<open>Invalid Date\<close>. A request to \<^verbatim>\<open>http://localhost:3000/plants/\<close> with the given
  query. The runtime of the examples parses the date \<^verbatim>\<open>2024-01-01\<close> and no other string
  used below, and of the sources that are not literals it compiles \<^verbatim>\<open>a.b\<close>.
\<close>

definition plantsOptions :: options where
  "plantsOptions =
    \<lparr> opt_defaultLimit = Some 20, opt_maxLimit = Some 100, opt_defaultSort = Some ''createdAt'',
      opt_allowedSortFields =
        Some [''name'', ''status'', ''createdAt'', ''updatedAt'', ''price'', ''stockCount''],
      opt_allowedFilterFields =
        Some [''name'', ''description'', ''status'', ''categoriesIds'', ''height'', ''humidity'',
              ''temperature'', ''watering'', ''sunlight'', ''nutrients'', ''forSale'', ''price'',
              ''stockCount''],
      opt_searchFields = Some [''name'', ''description'', ''height'', ''humidity'', ''temperature''],
      opt_dateField = Some ''createdAt'',
      opt_populate = JUndefined \<rparr>"

definition usersOptions :: options where
  "usersOptions =
    \<lparr> opt_defaultLimit = Some 10, opt_maxLimit = Some 100, opt_defaultSort = None,
      opt_allowedSortFields = Some [''firstName'', ''lastName'', ''createdAt''],
      opt_allowedFilterFields = Some [''status''],
      opt_searchFields = Some [''firstName'', ''lastName'', ''email''],
      opt_dateField = None,
      opt_populate = JUndefined \<rparr>"



definition store :: "nat \<Rightarrow> env" where
  "store n =
    \<lparr> dateParse = (\<lambda>s. if s = ''2024-01-01'' then Some 1704067200000 else None),
      regexpCompiles = (\<lambda>source. source = ''a.b''),
      categoriesFindOne = (\<lambda>name. Inr None),
      countDocuments = (\<lambda>filterObject. Inr n),
      findExec = (\<lambda>filterObject pops sortObj sk lmt. Inr []) \<rparr>"


definition get :: "jsobj \<Rightarrow> request" where
  "get q = \<lparr> query = q, protocol = ''http'', host = ''localhost:3000'', baseUrl = ''/plants'',
             reqPath = ''/'' \<rparr>"

text \<open>The response to \<^verbatim>\<open>?page=2&limit=10\<close> over 25 matching documents.\<close>

definition page2of25 :: response where
  "page2of25 =
    \<lparr> data = [], total = 25, per_page = Num 10, current_page = Num 2, last_page = Num 3,
      from_no = Some (Num 11), to_no = Some (Num 20),
      path = ''http://localhost:3000/plants/'',
      first_page_url = ''http://localhost:3000/plants/?page=1&limit=10'',
      last_page_url = ''http://localhost:3000/plants/?page=3&limit=10'',
      next_page_url = Some ''http://localhost:3000/plants/?page=3&limit=10'',
      prev_page_url = Some ''http://localhost:3000/plants/?page=1&limit=10'',
      current_page_url = ''http://localhost:3000/plants/?page=2&limit=10'',
      query_info = \<lparr> filters_applied = 0, sort_by = ''createdAt'', sort_direction = ''desc'' \<rparr> \<rparr>"

section \<open>Properties\<close>

subsection \<open>Steps that may throw\<close>

lemma andThen_Inr: "andThen r k = Inr y \<longleftrightarrow> (\<exists>x. r = Inr x \<and> k x = Inr y)"
  by (cases r) (simp_all add: andThen_def)

lemma run_Inr:
  assumes "run e cfg req = Inr r"
  obtains sortObj filterObject totalCount docs where
    "sortObject cfg req = Inr sortObj"
    "buildFilter e cfg req = Inr filterObject"
    "countDocuments e filterObject = Inr totalCount"
    "findExec e filterObject (populates cfg) sortObj (skip cfg req) (limit cfg req) = Inr docs"
    "r = respond cfg req sortObj filterObject totalCount docs"
  using assms unfolding run_def andThen_Inr by blast

lemma queryBuilder_Inr:
  "queryBuilder e req opts = Inr r \<longleftrightarrow> run e (mergeConfig opts) req = Inr r"
  by (simp add: queryBuilder_def split: sum.splits)

lemma buildFilter_Inr:
  assumes "buildFilter e cfg req = Inr F"
  obtains F1 F2 F3 where
    "applyCategories e req [] = Inr F1"
    "applyFilters e cfg req F1 = Inr F2"
    "applySearch e cfg req F2 = Inr F3"
    "F = applyDateRange e cfg req F3"
  using assms unfolding buildFilter_def andThen_Inr by auto

subsection \<open>Assignment to a property\<close>

lemma map_of_js_set:
  "map_of (js_set k v F) f = (if f = k \<and> k \<noteq> ''__proto__'' then Some v else map_of F f)"
  by (simp add: js_set_def update_conv')


subsection \<open>Double arithmetic\<close>

text \<open>An integer below \<open>2^53\<close> in magnitude is a double.\<close>

lemma toDouble_exact: "\<bar>n\<bar> < 2 ^ 53 \<Longrightarrow> toDouble n = Num n"
  by (simp add: toDouble_def downScale.simps [of "\<bar>n\<bar>" 1] roundEven_def Let_def)

lemma downScale_pos: "0 < downScale a b"
  by (induction a b rule: downScale.induct) (subst downScale.simps, simp)

lemma roundEven_nonneg: "0 \<le> n \<Longrightarrow> 0 < d \<Longrightarrow> 0 \<le> roundEven n d"
  by (simp add: roundEven_def Let_def pos_imp_zdiv_nonneg_iff)

lemma toDouble_nonneg:
  assumes "0 \<le> n"
  shows "toDouble n \<noteq> NegInf \<and> (\<forall>v. toDouble n = Num v \<longrightarrow> 0 \<le> v)"
proof -
  have "0 \<le> roundEven \<bar>n\<bar> (downScale \<bar>n\<bar> 1) * downScale \<bar>n\<bar> 1"
    using roundEven_nonneg [of "\<bar>n\<bar>" "downScale \<bar>n\<bar> 1"] downScale_pos [of "\<bar>n\<bar>" 1]
    by simp
  with assms show ?thesis
    by (auto simp: toDouble_def Let_def)
qed

lemma upScale_pos: "0 < upScale a b"
  by (induction a b rule: upScale.induct) (subst upScale.simps, simp)

lemma upScale_low: "0 < a \<Longrightarrow> 2 ^ 52 * b \<le> a * upScale a b"
proof (induction a b rule: upScale.induct)
  case (1 a b)
  show ?case
  proof (cases "2 ^ 52 * b \<le> a")
    case True
    then show ?thesis
      using 1(2) by (subst upScale.simps) simp
  next
    case False
    with 1 have "2 ^ 52 * b \<le> 2 * a * upScale (2 * a) b"
      by simp
    with False 1(2) show ?thesis
      by (subst upScale.simps) (simp add: mult.assoc mult.left_commute)
  qed
qed

lemma div_unique_pos:
  fixes x k q :: int
  assumes "q * k \<le> x" and "x < q * k + k"
  shows "x div k = q"
proof -
  from assms have k: "0 < k" by simp
  have "x = k * q + (x - q * k)" by (simp add: mult.commute)
  moreover have "0 \<le> x - q * k" using assms by simp
  moreover have "x - q * k < k" using assms by simp
  ultimately show ?thesis
    using k by (metis int_div_pos_eq)
qed

text \<open>
  Rounding the quotient of two integers to a double and then up to an integer gives the
  ceiling of the exact quotient, as long as the dividend is below \<open>2^53\<close>: the quotient is
  then further from the integer below it than half the spacing of the doubles there.
\<close>

lemma ceil_quotient:
  fixes a b :: int
  assumes a: "0 < a" "a < 2 ^ 53" and b: "0 < b"
  shows "(case divDouble a b of (n, k) \<Rightarrow> - ((- n) div k)) = - ((- a) div b)"
proof -
  define K where "K = upScale a b"
  define N where "N = a * K"
  define m where "m = N div b"
  define r where "r = N mod b"
  define m' where "m' = roundEven N b"
  define d where "d = - ((- a) div b) - 1"
  define s where "s = a - d * b"
  have K: "0 < K" by (simp add: K_def upScale_pos)
  have J: "downScale a b = 1"
  proof -
    have "a < 2 ^ 53 * b"
      using a b by (smt (verit) mult_le_cancel_left1)
    then show ?thesis by (subst downScale.simps) simp
  qed
  have dd: "divDouble a b = (m', K)"
    by (simp add: divDouble_def Let_def J K_def N_def m'_def)
  have low: "2 ^ 52 * b \<le> a * K"
    unfolding K_def using a(1) by (rule upScale_low)
  have "a * K < 2 ^ 53 * K"
    using a(2) K by simp
  with low have bK: "b < 2 * K" by simp
  have s: "1 \<le> s" "s \<le> b"
  proof -
    define q where "q = (- a) div b"
    define t where "t = (- a) mod b"
    have "- a = q * b + t" by (simp add: q_def t_def)
    then have aq: "a = - (q * b) - t" by simp
    have tb: "0 \<le> t" "t < b" using b by (simp_all add: t_def)
    have dq: "d = - q - 1" by (simp add: d_def q_def)
    have "s = b - t"
      unfolding s_def dq aq by (simp add: algebra_simps)
    with tb show "1 \<le> s" "s \<le> b"
      by simp_all
  qed
  have N: "N = (d * K) * b + s * K"
    by (simp add: N_def s_def algebra_simps)
  have mr: "N = m * b + r" "0 \<le> r" "r < b"
    using b by (simp_all add: m_def r_def)
  have m'_cases: "m' = (if b < 2 * r \<or> (2 * r = b \<and> odd m) then m + 1 else m)"
    by (simp add: m'_def roundEven_def Let_def m_def r_def)
  have sK: "0 \<le> s * K" "s * K \<le> b * K" "K \<le> s * K"
    using s K by (simp_all add: mult_right_mono)
  have m_low: "d * K \<le> m"
  proof (rule ccontr)
    assume "\<not> d * K \<le> m"
    then have "m + 1 \<le> d * K" by simp
    then have "(m + 1) * b \<le> d * K * b" using b by (simp add: mult_right_mono)
    with mr sK(1) N show False by (simp add: algebra_simps)
  qed
  have m_up: "m \<le> d * K + K"
  proof (rule ccontr)
    assume "\<not> m \<le> d * K + K"
    then have "d * K + K + 1 \<le> m" by simp
    then have "(d * K + K + 1) * b \<le> m * b" using b by (simp add: mult_right_mono)
    with mr sK(2) N b show False by (simp add: algebra_simps)
  qed
  have up: "m' \<le> d * K + K"
  proof (cases "m = d * K + K")
    case True
    with mr N sK(2) have "r = 0" by (simp add: algebra_simps)
    with m'_cases b True show ?thesis by simp
  next
    case False
    with m_up have "m + 1 \<le> d * K + K" by simp
    with m'_cases show ?thesis by (simp split: if_splits)
  qed
  have lo: "d * K < m'"
  proof (cases "m = d * K")
    case True
    with mr N have "r = s * K" by simp
    with sK(3) bK have "b < 2 * r" by simp
    with m'_cases True show ?thesis by simp
  next
    case False
    with m_low have "d * K < m" by simp
    with m'_cases show ?thesis by (simp split: if_splits)
  qed
  have "(- m') div K = - d - 1"
  proof (rule div_unique_pos)
    show "(- d - 1) * K \<le> - m'" using up by (simp add: algebra_simps)
    show "- m' < (- d - 1) * K + K" using lo by (simp add: algebra_simps)
  qed
  then show ?thesis
    by (simp add: dd d_def)
qed

lemma lastPage_ceiling:
  assumes "t < 2 ^ 53" and "0 < l"
  shows "lastPage t (Num l) = Num \<lceil>real t / real_of_int l\<rceil>"
proof (cases "t = 0")
  case True
  then show ?thesis using assms by (simp add: lastPage_def)
next
  case False
  have c: "\<lceil>real t / real_of_int l\<rceil> = - ((- int t) div l)"
    using ceiling_divide_eq_div [of "int t" l, where ?'a = real] by simp
  have "int t < 2 ^ 53"
    using assms(1) by (metis of_nat_less_iff of_nat_numeral of_nat_power)
  with False assms(2) ceil_quotient [of "int t" l] show ?thesis
    by (simp add: lastPage_def c split: prod.splits)
qed

subsection \<open>Pagination\<close>

lemma orDefault_cases:
  "(\<exists>n. orDefault x d = Num n) \<or> orDefault x d = PosInf \<or> orDefault x d = NegInf"
  by (cases x) (simp_all add: orDefault_def)

lemma page_cases: "(\<exists>p. page req = Num p \<and> 1 \<le> p) \<or> page req = PosInf"
  using orDefault_cases [of "parseInt (getProp (query req) ''page'')" 1]
  by (auto simp: page_def)

lemma limit_cases:
  assumes "1 \<le> maxLimit cfg"
  shows "\<exists>l. limit cfg req = Num l \<and> 1 \<le> l \<and> l \<le> maxLimit cfg"
  using orDefault_cases [of "parseInt (getProp (query req) ''limit'')" "defaultLimit cfg"] assms
  by (auto simp: limit_def)

lemma skip_exact:
  assumes "page req = Num p" and "limit cfg req = Num l"
    and "1 \<le> p" and "1 \<le> l" and "(p - 1) * l < 2 ^ 53"
  shows "skip cfg req = Num ((p - 1) * l)"
proof -
  have nn: "0 \<le> p - 1" using assms(3) by simp
  have "(p - 1) * 1 \<le> (p - 1) * l"
    using assms(4) nn by (rule mult_left_mono)
  with assms(5) nn have "\<bar>p - 1\<bar> < 2 ^ 53" by simp
  then have s: "subNum (Num p) (Num 1) = Num (p - 1)"
    by (simp add: subNum_def toDouble_exact)
  have "0 \<le> (p - 1) * l" using nn assms(4) by simp
  with assms(5) have "\<bar>(p - 1) * l\<bar> < 2 ^ 53" by simp
  then show ?thesis
    by (simp add: skip_def assms(1,2) s toDouble_exact)
qed

text \<open>With a limit of at least 1, \<open>skip\<close> is never negative.\<close>

lemma skip_nonneg:
  assumes "1 \<le> maxLimit cfg" and "skip cfg req = Num s"
  shows "0 \<le> s"
proof -
  from limit_cases [OF assms(1), of req] obtain l
    where l: "limit cfg req = Num l" "1 \<le> l"
    by blast
  from page_cases [of req] show ?thesis
  proof
    assume "\<exists>p. page req = Num p \<and> 1 \<le> p"
    then obtain p where p: "page req = Num p" "1 \<le> p"
      by blast
    have d: "subNum (Num p) (Num 1) = toDouble (p - 1)"
      by (simp add: subNum_def)
    show ?thesis
    proof (cases "toDouble (p - 1)")
      case (Num v)
      with toDouble_nonneg [of "p - 1"] p(2) have "0 \<le> v"
        by simp
      with l(2) have "0 \<le> v * l"
        by simp
      with toDouble_nonneg [of "v * l"] assms(2) show ?thesis
        by (simp add: skip_def p l d Num)
    next
      case PosInf
      with assms(2) l(2) show ?thesis
        by (simp add: skip_def p l d)
    next
      case NegInf
      with toDouble_nonneg [of "p - 1"] p(2) show ?thesis
        by simp
    next
      case NaN
      with assms(2) show ?thesis
        by (simp add: skip_def p l d)
    qed
  next
    assume "page req = PosInf"
    with assms(2) l(2) show ?thesis
      by (simp add: skip_def l subNum_def)
  qed
qed

text \<open>
  C4, amended. For every raw \<^verbatim>\<open>page\<close> and \<^verbatim>\<open>limit\<close> (a numeric string, any other value, or
  none), under a configuration whose \<open>maxLimit\<close> is at least 1: the page is
  \<open>max(1, parseInt(raw.page) or 1)\<close> and at least 1, the limit is
  \<open>min(max(1, parseInt(raw.limit) or defaultLimit), maxLimit)\<close> and lies between 1 and
  \<open>maxLimit\<close>, and \<open>skip\<close> is the product \<open>(page - 1) * limit\<close> of the doubles, which is the
  integer \<open>(page - 1) * limit\<close> whenever that integer is below \<open>2^53\<close>.
\<close>

theorem C4_page_window:
  assumes "1 \<le> maxLimit cfg"
  shows "page req = maxNum (Num 1) (orDefault (parseInt (getProp (query req) ''page'')) 1)
   \<and> ((\<exists>p. page req = Num p \<and> 1 \<le> p) \<or> page req = PosInf)
   \<and> limit cfg req =
       minNum (maxNum (Num 1)
                 (orDefault (parseInt (getProp (query req) ''limit'')) (defaultLimit cfg)))
              (Num (maxLimit cfg))
   \<and> (\<exists>l. limit cfg req = Num l \<and> 1 \<le> l \<and> l \<le> maxLimit cfg)
   \<and> skip cfg req = mulNum (subNum (page req) (Num 1)) (limit cfg req)
   \<and> (\<forall>p l. page req = Num p \<and> limit cfg req = Num l \<and> (p - 1) * l < 2 ^ 53
          \<longrightarrow> skip cfg req = Num ((p - 1) * l))"
proof -
  have "\<forall>p l. page req = Num p \<and> limit cfg req = Num l \<and> (p - 1) * l < 2 ^ 53
          \<longrightarrow> skip cfg req = Num ((p - 1) * l)"
  proof (intro allI impI)
    fix p l
    assume h: "page req = Num p \<and> limit cfg req = Num l \<and> (p - 1) * l < 2 ^ 53"
    with page_cases [of req] have p: "1 \<le> p" by auto
    from h limit_cases [OF assms, of req] have l: "1 \<le> l" by auto
    from h p l show "skip cfg req = Num ((p - 1) * l)"
      by (simp add: skip_exact)
  qed
  with page_cases [of req] limit_cases [OF assms, of req] show ?thesis
    by (simp add: page_def limit_def skip_def)
qed

theorem C4_page_window_witness:
  "1 \<le> maxLimit (mergeConfig plantsOptions)
   \<and> page (get [(''page'', JStr ''3''), (''limit'', JStr ''500'')]) = Num 3
   \<and> limit (mergeConfig plantsOptions) (get [(''page'', JStr ''3''), (''limit'', JStr ''500'')])
       = Num 100
   \<and> skip (mergeConfig plantsOptions) (get [(''page'', JStr ''3''), (''limit'', JStr ''500'')])
       = Num 200"
proof -
  let ?cfg = "mergeConfig plantsOptions"
  let ?req = "get [(''page'', JStr ''3''), (''limit'', JStr ''500'')]"
  have m: "1 \<le> maxLimit ?cfg"
    by code_simp
  have p: "page ?req = Num 3"
    by code_simp
  have l: "limit ?cfg ?req = Num 100"
    by code_simp
  from C4_page_window [OF m, of ?req]
  have "\<forall>p l. page ?req = Num p \<and> limit ?cfg ?req = Num l \<and> (p - 1) * l < 2 ^ 53
          \<longrightarrow> skip ?cfg ?req = Num ((p - 1) * l)"
    by blast
  with p l have "skip ?cfg ?req = Num ((3 - 1) * 100)"
    by simp
  with m p l show ?thesis
    by simp
qed

text \<open>
  C4 as stated fails for \<^verbatim>\<open>?page=360287970189642&limit=100\<close> on the plants route: the page
  and the limit are the numbers of the request, and \<open>skip\<close> is not their product
  36028797018964100, which is no double, but the double next to it.
\<close>

theorem C4_counterexample:
  "page (get [(''page'', JStr ''360287970189642''), (''limit'', JStr ''100'')])
     = Num 360287970189642
   \<and> limit (mergeConfig plantsOptions)
        (get [(''page'', JStr ''360287970189642''), (''limit'', JStr ''100'')]) = Num 100
   \<and> skip (mergeConfig plantsOptions)
        (get [(''page'', JStr ''360287970189642''), (''limit'', JStr ''100'')])
     = Num 36028797018964096
   \<and> (360287970189642 - 1) * 100 = (36028797018964100 :: int)"
  by code_simp

subsection \<open>Envelope arithmetic\<close>

text \<open>
  C7, amended. In every response, under a configuration whose \<open>maxLimit\<close> is at least 1:
  \<open>total\<close> is the count the store answers for the filter built from the request,
  \<open>current_page\<close> is the page and \<open>per_page\<close> the limit of the request; when \<open>total = 0\<close>,
  \<open>last_page\<close> is 0 and \<open>from\<close> and \<open>to\<close> are both \<^verbatim>\<open>null\<close>; when \<open>total > 0\<close>, \<open>from\<close> is the
  sum \<open>skip + 1\<close> and \<open>to\<close> is \<open>min(skip + limit, total)\<close> of the doubles. These are the
  integers of the claim wherever the integers are doubles: \<open>last_page = ceil(total / limit)\<close>
  for a total below \<open>2^53\<close>, and \<open>from = skip + 1\<close>, \<open>to = min(skip + limit, total)\<close> for
  \<open>skip + limit\<close> below \<open>2^53\<close>.
\<close>

theorem C7_envelope:
  assumes "queryBuilder e req opts = Inr r" and "1 \<le> maxLimit (mergeConfig opts)"
  shows "\<exists>F l. buildFilter e (mergeConfig opts) req = Inr F
           \<and> countDocuments e F = Inr (total r)
           \<and> current_page r = page req
           \<and> per_page r = limit (mergeConfig opts) req
           \<and> limit (mergeConfig opts) req = Num l \<and> 1 \<le> l
           \<and> (total r < 2 ^ 53 \<longrightarrow> last_page r = Num \<lceil>real (total r) / real_of_int l\<rceil>)
           \<and> (total r = 0 \<longrightarrow> last_page r = Num 0 \<and> from_no r = None \<and> to_no r = None)
           \<and> (0 < total r \<longrightarrow>
                from_no r = Some (addNum (skip (mergeConfig opts) req) (Num 1))
                \<and> to_no r = Some (minNum (addNum (skip (mergeConfig opts) req) (Num l))
                                         (Num (int (total r)))))
           \<and> (\<forall>s. 0 < total r \<and> skip (mergeConfig opts) req = Num s \<and> s + l < 2 ^ 53 \<longrightarrow>
                from_no r = Some (Num (s + 1))
                \<and> to_no r = Some (Num (min (s + l) (int (total r)))))"
proof -
  let ?cfg = "mergeConfig opts"
  from assms(1) have "run e ?cfg req = Inr r"
    by (simp add: queryBuilder_Inr)
  then obtain sortObj F t docs
    where F: "buildFilter e ?cfg req = Inr F"
      and t: "countDocuments e F = Inr t"
      and r: "r = respond ?cfg req sortObj F t docs"
    by (rule run_Inr)
  from limit_cases [OF assms(2), of req] obtain l
    where l: "limit ?cfg req = Num l" "1 \<le> l"
    by blast
  have tot: "total r = t"
    by (simp add: r respond_def Let_def)
  have cp: "current_page r = page req"
    by (simp add: r respond_def Let_def)
  have pp: "per_page r = limit ?cfg req"
    by (simp add: r respond_def Let_def)
  have lp: "last_page r = lastPage t (Num l)"
    by (simp add: r respond_def Let_def l)
  have c1: "total r < 2 ^ 53 \<longrightarrow> last_page r = Num \<lceil>real (total r) / real_of_int l\<rceil>"
    using l(2) by (simp add: lp tot lastPage_ceiling)
  have c2: "total r = 0 \<longrightarrow> last_page r = Num 0 \<and> from_no r = None \<and> to_no r = None"
    using l(2) by (simp add: lp tot lastPage_def) (simp add: r respond_def Let_def)
  have c3: "0 < total r \<longrightarrow>
                from_no r = Some (addNum (skip ?cfg req) (Num 1))
                \<and> to_no r = Some (minNum (addNum (skip ?cfg req) (Num l)) (Num (int (total r))))"
    by (simp add: r respond_def Let_def l)
  have c4: "\<forall>s. 0 < total r \<and> skip ?cfg req = Num s \<and> s + l < 2 ^ 53 \<longrightarrow>
                from_no r = Some (Num (s + 1))
                \<and> to_no r = Some (Num (min (s + l) (int (total r))))"
  proof (intro allI impI)
    fix s
    assume h: "0 < total r \<and> skip ?cfg req = Num s \<and> s + l < 2 ^ 53"
    then have "0 \<le> s"
      using skip_nonneg [OF assms(2), of req s] by simp
    with h l(2) have "\<bar>s + 1\<bar> < 2 ^ 53" and "\<bar>s + l\<bar> < 2 ^ 53"
      by simp_all
    then have "addNum (Num s) (Num 1) = Num (s + 1)" and "addNum (Num s) (Num l) = Num (s + l)"
      by (simp_all add: toDouble_exact)
    with h c3 show "from_no r = Some (Num (s + 1))
                \<and> to_no r = Some (Num (min (s + l) (int (total r))))"
      by simp
  qed
  have ct: "countDocuments e F = Inr (total r)"
    using t tot by simp
  note l1 = l(1) and l2 = l(2)
  show ?thesis
    by (rule exI [of _ F], rule exI [of _ l]) (intro conjI; fact)
qed

theorem C7_envelope_witness:
  "queryBuilder (store 25) (get [(''page'', JStr ''2''), (''limit'', JStr ''10'')]) plantsOptions
     = Inr page2of25
   \<and> 1 \<le> maxLimit (mergeConfig plantsOptions)
   \<and> countDocuments (store 25) [] = Inr (total page2of25)
   \<and> current_page page2of25 = page (get [(''page'', JStr ''2''), (''limit'', JStr ''10'')])
   \<and> last_page page2of25 = Num 3
   \<and> from_no page2of25 = Some (Num 11)
   \<and> to_no page2of25 = Some (Num 20)"
proof -
  let ?cfg = "mergeConfig plantsOptions"
  let ?req = "get [(''page'', JStr ''2''), (''limit'', JStr ''10'')]"
  have q: "queryBuilder (store 25) ?req plantsOptions = Inr page2of25"
    by code_simp
  have m: "1 \<le> maxLimit ?cfg"
    by code_simp
  have b: "buildFilter (store 25) ?cfg ?req = Inr []"
    by code_simp
  from C7_envelope [OF q m] b
  have "countDocuments (store 25) [] = Inr (total page2of25)"
    and "current_page page2of25 = page ?req"
    by auto
  with q m show ?thesis
    by (simp add: page2of25_def)
qed

text \<open>
  C7 as stated fails for \<^verbatim>\<open>?page=360287970189642&limit=100\<close> over 25 documents on the plants
  route: \<open>skip\<close> is 36028797018964096, and \<open>from\<close> is that same number, not \<open>skip + 1\<close>, which
  is no double.
\<close>

theorem C7_counterexample:
  "queryBuilder (store 25)
      (get [(''page'', JStr ''360287970189642''), (''limit'', JStr ''100'')]) plantsOptions
     = Inr (respond (mergeConfig plantsOptions)
              (get [(''page'', JStr ''360287970189642''), (''limit'', JStr ''100'')])
              [(''createdAt'', - 1)] [] 25 [])
   \<and> skip (mergeConfig plantsOptions)
        (get [(''page'', JStr ''360287970189642''), (''limit'', JStr ''100'')])
     = Num 36028797018964096
   \<and> from_no (respond (mergeConfig plantsOptions)
        (get [(''page'', JStr ''360287970189642''), (''limit'', JStr ''100'')])
        [(''createdAt'', - 1)] [] 25 [])
     = Some (Num 36028797018964096)"
proof -
  let ?cfg = "mergeConfig plantsOptions"
  let ?req = "get [(''page'', JStr ''360287970189642''), (''limit'', JStr ''100'')]"
  have s: "sortObject ?cfg ?req = Inr [(''createdAt'', - 1)]"
    by code_simp
  have b: "buildFilter (store 25) ?cfg ?req = Inr []"
    by code_simp
  have c: "countDocuments (store 25) [] = Inr 25"
    by (simp add: store_def)
  have f: "findExec (store 25) [] (populates ?cfg) [(''createdAt'', - 1)]
             (skip ?cfg ?req) (limit ?cfg ?req) = Inr []"
    by (simp add: store_def)
  have q: "queryBuilder (store 25) ?req plantsOptions
             = Inr (respond ?cfg ?req [(''createdAt'', - 1)] [] 25 [])"
    by (simp add: queryBuilder_def run_def andThen_def s b c f)
  have k: "skip ?cfg ?req = Num 36028797018964096"
    by code_simp
  have a: "addNum (Num 36028797018964096) (Num 1) = Num 36028797018964096"
    by code_simp
  have "from_no (respond ?cfg ?req [(''createdAt'', - 1)] [] 25 [])
          = Some (addNum (skip ?cfg ?req) (Num 1))"
    by (simp add: respond_def Let_def)
  with k a have "from_no (respond ?cfg ?req [(''createdAt'', - 1)] [] 25 [])
          = Some (Num 36028797018964096)"
    by simp
  with q k show ?thesis
    by blast
qed

subsection \<open>Sorting\<close>

text \<open>
  C2, amended. For every request whose \<^verbatim>\<open>sort\<close> names a field (after a leading \<^verbatim>\<open>-\<close> is
  stripped) that is not a member of a non-empty \<^verbatim>\<open>allowedSortFields\<close>, and for every request
  with no \<^verbatim>\<open>sort\<close>, the sort is the empty object with \<^verbatim>\<open>defaultSort\<close> set to \<open>-1\<close>, that is
  exactly \<open>{defaultSort: descending}\<close>; its only key is \<^verbatim>\<open>defaultSort\<close>, so the disallowed
  field is in the sort only when it is the default sort field itself.
\<close>

theorem C2_sort_fallback:
  assumes "getProp (query req) ''sort'' = JUndefined
         \<or> (\<exists>sortField. getProp (query req) ''sort'' = JStr sortField
              \<and> allowedSortFields cfg \<noteq> []
              \<and> fieldNameOf sortField \<notin> set (allowedSortFields cfg))"
  shows "sortObject cfg req = Inr (js_set (defaultSort cfg) (- 1) [])
       \<and> (defaultSort cfg \<noteq> ''__proto__'' \<longrightarrow> sortObject cfg req = Inr [(defaultSort cfg, - 1)])
       \<and> (\<forall>sortField. getProp (query req) ''sort'' = JStr sortField
             \<longrightarrow> fieldNameOf sortField \<noteq> defaultSort cfg
             \<longrightarrow> fieldNameOf sortField \<notin> fst ` set (js_set (defaultSort cfg) (- 1 :: int) []))"
proof -
  have a: "sortObject cfg req = Inr (js_set (defaultSort cfg) (- 1) [])"
    using assms by (auto simp: sortObject_def Let_def)
  have b: "js_set (defaultSort cfg) (- 1 :: int) [] = [(defaultSort cfg, - 1)]"
    if "defaultSort cfg \<noteq> ''__proto__''"
    using that by (simp add: js_set_def)
  have c: "k \<notin> fst ` set (js_set (defaultSort cfg) (- 1 :: int) [])"
    if "k \<noteq> defaultSort cfg" for k
    using that by (simp add: js_set_def)
  show ?thesis
    by (intro conjI allI impI) (simp_all add: a b c)
qed

theorem C2_sort_fallback_witness:
  "getProp (query (get [(''sort'', JStr ''-secret'')])) ''sort'' = JStr ''-secret''
   \<and> allowedSortFields (mergeConfig (usersOptions\<lparr>opt_allowedSortFields := Some [''name'']\<rparr>)) \<noteq> []
   \<and> fieldNameOf ''-secret''
       \<notin> set (allowedSortFields (mergeConfig (usersOptions\<lparr>opt_allowedSortFields := Some [''name'']\<rparr>)))
   \<and> sortObject (mergeConfig (usersOptions\<lparr>opt_allowedSortFields := Some [''name'']\<rparr>))
        (get [(''sort'', JStr ''-secret'')]) = Inr [(''createdAt'', - 1)]"
proof -
  let ?cfg = "mergeConfig (usersOptions\<lparr>opt_allowedSortFields := Some [''name'']\<rparr>)"
  let ?req = "get [(''sort'', JStr ''-secret'')]"
  have s: "getProp (query ?req) ''sort'' = JStr ''-secret''"
    by code_simp
  have ne: "allowedSortFields ?cfg \<noteq> []"
    by code_simp
  have out: "fieldNameOf ''-secret'' \<notin> set (allowedSortFields ?cfg)"
    by code_simp
  have d: "defaultSort ?cfg = ''createdAt''"
    by code_simp
  from s ne out have h: "getProp (query ?req) ''sort'' = JUndefined
         \<or> (\<exists>sortField. getProp (query ?req) ''sort'' = JStr sortField
              \<and> allowedSortFields ?cfg \<noteq> []
              \<and> fieldNameOf sortField \<notin> set (allowedSortFields ?cfg))"
    by blast
  from C2_sort_fallback [OF h] d have "sortObject ?cfg ?req = Inr [(''createdAt'', - 1)]"
    by (simp add: js_set_def)
  with s ne out show ?thesis
    by blast
qed

text \<open>
  C2 as stated fails in its last clause where the field asked for is the default sort field
  and the allowlist does not hold it: with \<^verbatim>\<open>allowedSortFields: ['name']\<close> and the default
  \<^verbatim>\<open>createdAt\<close>, the request \<^verbatim>\<open>?sort=createdAt\<close> names a disallowed field, and that field is
  the key of the sort.
\<close>

theorem C2_counterexample:
  "allowedSortFields (mergeConfig (usersOptions\<lparr>opt_allowedSortFields := Some [''name'']\<rparr>)) \<noteq> []
   \<and> fieldNameOf ''createdAt''
       \<notin> set (allowedSortFields (mergeConfig (usersOptions\<lparr>opt_allowedSortFields := Some [''name'']\<rparr>)))
   \<and> sortObject (mergeConfig (usersOptions\<lparr>opt_allowedSortFields := Some [''name'']\<rparr>))
        (get [(''sort'', JStr ''createdAt'')]) = Inr [(''createdAt'', - 1)]
   \<and> fieldNameOf ''createdAt'' \<in> fst ` set [(''createdAt'', - 1 :: int)]"
  by code_simp

subsection \<open>Field filters\<close>

lemma backslash_meta: "CHR 0x5C \<in> set metaChars"
  by (simp add: metaChars_def)

lemma literalOf_Cons_plain:
  "c \<notin> set metaChars \<Longrightarrow> literalOf (c # p) = map_option ((#) c) (literalOf p)"
  using backslash_meta by (cases p) auto

lemma literalOf_Cons_escaped:
  "c \<in> set metaChars \<Longrightarrow> literalOf (CHR 0x5C # c # p) = map_option ((#) c) (literalOf p)"
  by simp

text \<open>The escaped value is a literal pattern, and the literal it stands for is the value.\<close>

lemma literalOf_escapeRegex: "literalOf (escapeRegex s) = Some s"
proof (induction s)
  case Nil
  show ?case by (simp add: escapeRegex_def)
next
  case (Cons c s)
  have step: "escapeRegex (c # s) = (if c \<in> set metaChars then [CHR 0x5C, c] else [c]) @ escapeRegex s"
    by (simp add: escapeRegex_def)
  show ?case
  proof (cases "c \<in> set metaChars")
    case True
    then show ?thesis
      using Cons.IH by (simp add: step del: literalOf.simps add: literalOf_Cons_escaped)
  next
    case False
    then show ?thesis
      using Cons.IH by (simp add: step del: literalOf.simps add: literalOf_Cons_plain)
  qed
qed

lemma newRegExp_escaped: "newRegExp e (escapeRegex s) = Inr (escapeRegex s)"
  by (simp add: newRegExp_def literalOf_escapeRegex)

text \<open>One step of the loop never throws: it assigns the predicate of an accepted field.\<close>

lemma filterStep_eq:
  "filterStep e cfg ftp field F =
     Inr (if accepted cfg field then js_set field (compiled field (getProp (ownEntries ftp) field)) F
          else F)"
  by (simp add: filterStep_def accepted_def compiled_def Let_def newRegExp_escaped andThen_def
           split: jsval.splits)

lemma forEach_filterStep:
  "forEach (filterStep e cfg ftp) ks F =
     Inr (fold (\<lambda>field F. if accepted cfg field
                            then js_set field (compiled field (getProp (ownEntries ftp) field)) F
                            else F) ks F)"
  by (induction ks arbitrary: F) (simp_all add: filterStep_eq andThen_def)

lemma map_of_fold_step:
  "map_of (fold (\<lambda>field F. if accepted cfg field then js_set field (g field) F else F) ks F) f =
     (if f \<in> set ks \<and> accepted cfg f \<and> f \<noteq> ''__proto__'' then Some (g f) else map_of F f)"
  by (induction ks arbitrary: F) (auto simp: map_of_js_set)

lemma applyFilters_eq:
  "applyFilters e cfg req F =
     Inr (if truthy (filterToProcess req) \<and> isObject (filterToProcess req)
          then fold (\<lambda>field F. if accepted cfg field
                     then js_set field (compiled field (getProp (ownEntries (filterToProcess req)) field)) F
                     else F) (map fst (ownEntries (filterToProcess req))) F
          else F)"
  by (simp add: applyFilters_def Let_def forEach_filterStep)

lemma applyFilters_total: "\<exists>F. applyFilters e cfg req F0 = Inr F"
  by (simp add: applyFilters_eq)

lemma map_of_applyFilters:
  assumes "applyFilters e cfg req F0 = Inr F"
  shows "map_of F f =
     (if truthy (filterToProcess req) \<and> isObject (filterToProcess req)
         \<and> f \<in> fst ` set (ownEntries (filterToProcess req)) \<and> accepted cfg f \<and> f \<noteq> ''__proto__''
      then Some (compiled f (getProp (ownEntries (filterToProcess req)) f))
      else map_of F0 f)"
proof -
  from assms have F: "F = (if truthy (filterToProcess req) \<and> isObject (filterToProcess req)
          then fold (\<lambda>field F. if accepted cfg field
                     then js_set field (compiled field (getProp (ownEntries (filterToProcess req)) field)) F
                     else F) (map fst (ownEntries (filterToProcess req))) F0
          else F0)"
    by (simp add: applyFilters_eq)
  show ?thesis
    unfolding F by (simp add: map_of_fold_step)
qed

lemma map_of_filterStep_loop:
  assumes "applyFilters e cfg req F0 = Inr F"
    and "truthy (filterToProcess req)" and "isObject (filterToProcess req)"
    and "field \<in> fst ` set (ownEntries (filterToProcess req))" and "accepted cfg field"
  shows "map_of F field =
           map_of (js_set field (compiled field (getProp (ownEntries (filterToProcess req)) field)) F0)
             field"
  using map_of_applyFilters [OF assms(1), of field] assms(2-5) by (simp add: map_of_js_set)

lemma map_of_applyCategories:
  "applyCategories e req [] = Inr F \<Longrightarrow> f \<noteq> ''categoriesIds'' \<Longrightarrow> map_of F f = None"
  by (auto simp: applyCategories_def Let_def andThen_Inr map_of_js_set
           split: if_splits jsval.splits option.splits)

lemma map_of_applySearch:
  "applySearch e cfg req F0 = Inr F \<Longrightarrow> f \<noteq> ''$or'' \<Longrightarrow> map_of F f = map_of F0 f"
  by (auto simp: applySearch_def Let_def andThen_Inr map_of_js_set
           split: if_splits option.splits)

lemma map_of_applyDateRange:
  "f \<noteq> theDateField cfg \<Longrightarrow> map_of (applyDateRange e cfg req F) f = map_of F f"
  by (simp add: applyDateRange_def Let_def map_of_js_set)

text \<open>
  C3, amended. For every candidate filter field, from the \<^verbatim>\<open>filter\<close> object or from the
  bracket syntax: if \<^verbatim>\<open>allowedFilterFields\<close> is not empty and does not hold the field, the
  compilation of the field filters never throws and leaves the entry of that field as it
  was, so that the resulting filter has a key for the field only when the field is named
  as a key that another step writes: \<^verbatim>\<open>categoriesIds\<close> (the category name), \<^verbatim>\<open>$or\<close> (the
  search) or the date field (the date range).
\<close>

theorem C3_allowlist:
  assumes "allowedFilterFields cfg \<noteq> []" and "field \<notin> set (allowedFilterFields cfg)"
  shows "(\<exists>F. applyFilters e cfg req F0 = Inr F \<and> map_of F field = map_of F0 field)
       \<and> (\<forall>F. buildFilter e cfg req = Inr F \<longrightarrow> field \<noteq> ''categoriesIds'' \<longrightarrow> field \<noteq> ''$or''
              \<longrightarrow> field \<noteq> theDateField cfg \<longrightarrow> field \<notin> fst ` set F)"
proof -
  from assms have na: "\<not> accepted cfg field"
    by (simp add: accepted_def)
  obtain F where F: "applyFilters e cfg req F0 = Inr F"
    using applyFilters_total by blast
  have stage: "map_of F field = map_of F0 field"
    using map_of_applyFilters [OF F, of field] na by simp
  have final: "field \<notin> fst ` set G"
    if G: "buildFilter e cfg req = Inr G"
      and n1: "field \<noteq> ''categoriesIds''" and n2: "field \<noteq> ''$or''"
      and n3: "field \<noteq> theDateField cfg" for G
  proof -
    from G obtain F1 F2 F3 where
      c: "applyCategories e req [] = Inr F1" and
      f: "applyFilters e cfg req F1 = Inr F2" and
      s: "applySearch e cfg req F2 = Inr F3" and
      d: "G = applyDateRange e cfg req F3"
      by (rule buildFilter_Inr)
    have "map_of F1 field = None"
      using c n1 by (rule map_of_applyCategories)
    moreover have "map_of F2 field = map_of F1 field"
      using map_of_applyFilters [OF f, of field] na by simp
    moreover have "map_of F3 field = map_of F2 field"
      using s n2 by (rule map_of_applySearch)
    moreover have "map_of G field = map_of F3 field"
      unfolding d using n3 by (rule map_of_applyDateRange)
    ultimately have "map_of G field = None"
      by simp
    then show ?thesis
      by (simp add: map_of_eq_None_iff)
  qed
  from F stage final show ?thesis
    by blast
qed

theorem C3_allowlist_witness:
  "allowedFilterFields (mergeConfig usersOptions) \<noteq> []
   \<and> ''price'' \<notin> set (allowedFilterFields (mergeConfig usersOptions))
   \<and> buildFilter (store 0) (mergeConfig usersOptions)
        (get [(''filter[price]'', JStr ''10''), (''filter[status]'', JStr ''active'')])
       = Inr [(''status'', PExact (JStr ''active''))]
   \<and> ''price'' \<notin> fst ` set [(''status'', PExact (JStr ''active''))]"
proof -
  let ?cfg = "mergeConfig usersOptions"
  let ?req = "get [(''filter[price]'', JStr ''10''), (''filter[status]'', JStr ''active'')]"
  have ne: "allowedFilterFields ?cfg \<noteq> []"
    by code_simp
  have out: "''price'' \<notin> set (allowedFilterFields ?cfg)"
    by code_simp
  have b: "buildFilter (store 0) ?cfg ?req = Inr [(''status'', PExact (JStr ''active''))]"
    by code_simp
  have d: "theDateField ?cfg = ''createdAt''"
    by code_simp
  from C3_allowlist [OF ne out, of "store 0" ?req "[]"] b d
  have "''price'' \<notin> fst ` set [(''status'', PExact (JStr ''active''))]"
    by simp
  with ne out b show ?thesis
    by blast
qed

text \<open>
  C3 as stated fails for a field named as the date field: on the users route, where only
  \<^verbatim>\<open>status\<close> may be filtered, the request \<^verbatim>\<open>?filter[createdAt]=2024&date_from=2024-01-01\<close>
  gives a filter with the key \<^verbatim>\<open>createdAt\<close>, written by the date range.
\<close>

theorem C3_counterexample:
  "allowedFilterFields (mergeConfig usersOptions) \<noteq> []
   \<and> ''createdAt'' \<notin> set (allowedFilterFields (mergeConfig usersOptions))
   \<and> matchFilterKey ''filter[createdAt]'' = Some ''createdAt''
   \<and> buildFilter (store 0) (mergeConfig usersOptions)
        (get [(''filter[createdAt]'', JStr ''2024''), (''date_from'', JStr ''2024-01-01'')])
       = Inr [(''createdAt'', PRange (Some (Date 1704067200000)) None)]"
  by code_simp

text \<open>
  C5. For every accepted filter field other than \<^verbatim>\<open>status\<close> whose value is a string with no
  comma, the compilation of the field filters never throws, and what it leaves under the
  field is what the assignment of the case-insensitive pattern leaves there; the source
  of the pattern is the value with a backslash before each of
  \<^verbatim>\<open>. * + ? ^ $ { } ( ) | [ ] \\<close>; that source is a literal pattern, and the literal it
  stands for is the value itself. (Under every key but \<^verbatim>\<open>__proto__\<close>, which no assignment
  can create, the assignment leaves the pattern.)
\<close>

theorem C5_escaped_literal:
  assumes "truthy (filterToProcess req)" and "isObject (filterToProcess req)"
    and "map_of (ownEntries (filterToProcess req)) field = Some (JStr s)"
    and "allowedFilterFields cfg = [] \<or> field \<in> set (allowedFilterFields cfg)"
    and "field \<noteq> ''status''" and "CHR '','' \<notin> set s"
  shows "(\<exists>F. applyFilters e cfg req F0 = Inr F
            \<and> map_of F field = map_of (js_set field (PRegex (escapeRegex s)) F0) field
            \<and> (field \<noteq> ''__proto__'' \<longrightarrow> map_of F field = Some (PRegex (escapeRegex s))))
       \<and> escapeRegex s =
           concat (map (\<lambda>c. if c \<in> set ''.*+?^${}()|[]'' \<or> c = CHR 0x5C then [CHR 0x5C, c] else [c]) s)
       \<and> literalOf (escapeRegex s) = Some s"
proof -
  obtain F where F: "applyFilters e cfg req F0 = Inr F"
    using applyFilters_total by blast
  from assms(3) have key: "field \<in> fst ` set (ownEntries (filterToProcess req))"
    by (force dest: map_of_SomeD)
  from assms(3) have v: "getProp (ownEntries (filterToProcess req)) field = JStr s"
    by (simp add: getProp_def)
  from assms(4) have acc: "accepted cfg field"
    by (simp add: accepted_def)
  from assms(5,6) have c: "compiled field (JStr s) = PRegex (escapeRegex s)"
    by (simp add: compiled_def)
  have m: "map_of F field = map_of (js_set field (PRegex (escapeRegex s)) F0) field"
    using map_of_filterStep_loop [OF F assms(1,2) key acc] by (simp add: v c)
  then have p: "field \<noteq> ''__proto__'' \<longrightarrow> map_of F field = Some (PRegex (escapeRegex s))"
    by (simp add: map_of_js_set)
  have second: "escapeRegex s =
           concat (map (\<lambda>c. if c \<in> set ''.*+?^${}()|[]'' \<or> c = CHR 0x5C then [CHR 0x5C, c] else [c]) s)"
    by (simp add: escapeRegex_def metaChars_def)
  from F m p second literalOf_escapeRegex show ?thesis
    by blast
qed

theorem C5_escaped_literal_witness:
  "truthy (filterToProcess (get [(''filter[name]'', JStr ''a.b*c'')]))
   \<and> isObject (filterToProcess (get [(''filter[name]'', JStr ''a.b*c'')]))
   \<and> map_of (ownEntries (filterToProcess (get [(''filter[name]'', JStr ''a.b*c'')]))) ''name''
       = Some (JStr ''a.b*c'')
   \<and> ''name'' \<in> set (allowedFilterFields (mergeConfig plantsOptions))
   \<and> applyFilters (store 0) (mergeConfig plantsOptions) (get [(''filter[name]'', JStr ''a.b*c'')]) []
       = Inr [(''name'', PRegex [CHR ''a'', CHR 0x5C, CHR ''.'', CHR ''b'', CHR 0x5C, CHR ''*'', CHR ''c''])]
   \<and> literalOf [CHR ''a'', CHR 0x5C, CHR ''.'', CHR ''b'', CHR 0x5C, CHR ''*'', CHR ''c'']
       = Some ''a.b*c''"
proof -
  let ?cfg = "mergeConfig plantsOptions"
  let ?req = "get [(''filter[name]'', JStr ''a.b*c'')]"
  have t: "truthy (filterToProcess ?req)"
    by code_simp
  have o: "isObject (filterToProcess ?req)"
    by code_simp
  have v: "map_of (ownEntries (filterToProcess ?req)) ''name'' = Some (JStr ''a.b*c'')"
    by code_simp
  have m: "''name'' \<in> set (allowedFilterFields ?cfg)"
    by code_simp
  then have acc: "allowedFilterFields ?cfg = [] \<or> ''name'' \<in> set (allowedFilterFields ?cfg)"
    by blast
  have ns: "''name'' \<noteq> ''status''" and nc: "CHR '','' \<notin> set ''a.b*c''"
    by simp_all
  have esc: "escapeRegex ''a.b*c'' =
      [CHR ''a'', CHR 0x5C, CHR ''.'', CHR ''b'', CHR 0x5C, CHR ''*'', CHR ''c'']"
    by code_simp
  have a: "applyFilters (store 0) ?cfg ?req []
       = Inr [(''name'', PRegex [CHR ''a'', CHR 0x5C, CHR ''.'', CHR ''b'', CHR 0x5C, CHR ''*'', CHR ''c''])]"
    by code_simp
  from C5_escaped_literal [OF t o v acc ns nc, of "store 0" "[]"]
  have "literalOf (escapeRegex ''a.b*c'') = Some ''a.b*c''"
    by blast
  then have "literalOf [CHR ''a'', CHR 0x5C, CHR ''.'', CHR ''b'', CHR 0x5C, CHR ''*'', CHR ''c'']
       = Some ''a.b*c''"
    by (simp only: esc)
  with t o v m a show ?thesis
    by blast
qed

text \<open>
  C6. For every accepted filter field, the compilation of the field filters never throws,
  and what it leaves under the field is what the assignment of the compiled predicate
  leaves there: for a string with a comma, the set-membership predicate of its
  comma-separated pieces, each trimmed; for another string, when the field is \<^verbatim>\<open>status\<close>,
  the exact match of the string; for a value that is not a string, the exact match of the
  value unchanged. (Under every key but \<^verbatim>\<open>__proto__\<close>, which no assignment can create,
  the assignment leaves the predicate.)
\<close>

theorem C6_value_semantics:
  assumes "truthy (filterToProcess req)" and "isObject (filterToProcess req)"
    and "field \<in> fst ` set (ownEntries (filterToProcess req))"
    and "allowedFilterFields cfg = [] \<or> field \<in> set (allowedFilterFields cfg)"
  shows "\<exists>F. applyFilters e cfg req F0 = Inr F
       \<and> (\<forall>s. getProp (ownEntries (filterToProcess req)) field = JStr s \<and> CHR '','' \<in> set s
             \<longrightarrow> map_of F field
                 = map_of (js_set field (PIn (map trim (splitOn (CHR '','') s))) F0) field)
       \<and> (\<forall>s. getProp (ownEntries (filterToProcess req)) field = JStr s \<and> CHR '','' \<notin> set s
               \<and> field = ''status''
             \<longrightarrow> map_of F field = map_of (js_set field (PExact (JStr s)) F0) field)
       \<and> ((\<forall>s. getProp (ownEntries (filterToProcess req)) field \<noteq> JStr s)
             \<longrightarrow> map_of F field
                 = map_of (js_set field (PExact (getProp (ownEntries (filterToProcess req)) field)) F0)
                     field)
       \<and> (field \<noteq> ''__proto__''
             \<longrightarrow> map_of F field
                 = Some (compiled field (getProp (ownEntries (filterToProcess req)) field)))"
proof -
  let ?v = "getProp (ownEntries (filterToProcess req)) field"
  obtain F where F: "applyFilters e cfg req F0 = Inr F"
    using applyFilters_total by blast
  from assms(4) have acc: "accepted cfg field"
    by (simp add: accepted_def)
  have m: "map_of F field = map_of (js_set field (compiled field ?v) F0) field"
    using F assms(1-3) acc by (rule map_of_filterStep_loop)
  have a: "map_of F field = map_of (js_set field (PIn (map trim (splitOn (CHR '','') s))) F0) field"
    if "?v = JStr s \<and> CHR '','' \<in> set s" for s
    using m that by (simp add: compiled_def)
  have b: "map_of F field = map_of (js_set field (PExact (JStr s)) F0) field"
    if "?v = JStr s \<and> CHR '','' \<notin> set s \<and> field = ''status''" for s
    using m that by (auto simp: compiled_def)
  have c: "map_of F field = map_of (js_set field (PExact ?v) F0) field"
    if "\<forall>s. ?v \<noteq> JStr s"
    using m that by (cases ?v) (simp_all add: compiled_def)
  have d: "field \<noteq> ''__proto__'' \<longrightarrow> map_of F field = Some (compiled field ?v)"
    using m by (simp add: map_of_js_set)
  from F a b c d show ?thesis
    by blast
qed

theorem C6_value_semantics_witness:
  "truthy (filterToProcess (get [(''filter[status]'', JStr ''active, inactive'')]))
   \<and> isObject (filterToProcess (get [(''filter[status]'', JStr ''active, inactive'')]))
   \<and> ''status'' \<in> fst ` set (ownEntries (filterToProcess (get [(''filter[status]'', JStr ''active, inactive'')])))
   \<and> ''status'' \<in> set (allowedFilterFields (mergeConfig usersOptions))
   \<and> getProp (ownEntries (filterToProcess (get [(''filter[status]'', JStr ''active, inactive'')]))) ''status''
       = JStr ''active, inactive''
   \<and> applyFilters (store 0) (mergeConfig usersOptions) (get [(''filter[status]'', JStr ''active, inactive'')]) []
       = Inr [(''status'', PIn [''active'', ''inactive''])]
   \<and> map_of [(''status'', PIn [''active'', ''inactive''])] ''status''
       = Some (compiled ''status'' (JStr ''active, inactive''))"
proof -
  let ?cfg = "mergeConfig usersOptions"
  let ?req = "get [(''filter[status]'', JStr ''active, inactive'')]"
  have t: "truthy (filterToProcess ?req)"
    by code_simp
  have o: "isObject (filterToProcess ?req)"
    by code_simp
  have k: "''status'' \<in> fst ` set (ownEntries (filterToProcess ?req))"
    by code_simp
  have m: "''status'' \<in> set (allowedFilterFields ?cfg)"
    by code_simp
  then have acc: "allowedFilterFields ?cfg = [] \<or> ''status'' \<in> set (allowedFilterFields ?cfg)"
    by blast
  have np: "''status'' \<noteq> ''__proto__''"
    by simp
  have v: "getProp (ownEntries (filterToProcess ?req)) ''status'' = JStr ''active, inactive''"
    by code_simp
  have a: "applyFilters (store 0) ?cfg ?req [] = Inr [(''status'', PIn [''active'', ''inactive''])]"
    by code_simp
  from C6_value_semantics [OF t o k acc, of "store 0" "[]"] a v np
  have "map_of [(''status'', PIn [''active'', ''inactive''])] ''status''
       = Some (compiled ''status'' (JStr ''active, inactive''))"
    by auto
  with t o k m v a show ?thesis
    by blast
qed

subsection \<open>The field filters in the filter handed to the store\<close>

text \<open>
  The predicate compiled for an accepted field is still under that field when the filter
  reaches the store, unless the field is \<^verbatim>\<open>$or\<close> or the date field, which the later steps
  may write.
\<close>

lemma buildFilter_field:
  assumes "buildFilter e cfg req = Inr F"
    and "truthy (filterToProcess req)" and "isObject (filterToProcess req)"
    and "field \<in> fst ` set (ownEntries (filterToProcess req))"
    and "accepted cfg field" and "field \<noteq> ''__proto__''"
    and "field \<noteq> ''$or''" and "field \<noteq> theDateField cfg"
  shows "map_of F field = Some (compiled field (getProp (ownEntries (filterToProcess req)) field))"
proof -
  from assms(1) obtain F1 F2 F3 where
    f: "applyFilters e cfg req F1 = Inr F2" and
    s: "applySearch e cfg req F2 = Inr F3" and
    d: "F = applyDateRange e cfg req F3"
    by (rule buildFilter_Inr)
  have "map_of F2 field = Some (compiled field (getProp (ownEntries (filterToProcess req)) field))"
    using map_of_applyFilters [OF f, of field] assms(2-6) by simp
  moreover have "map_of F3 field = map_of F2 field"
    using s assms(7) by (rule map_of_applySearch)
  moreover have "map_of F field = map_of F3 field"
    unfolding d using assms(8) by (rule map_of_applyDateRange)
  ultimately show ?thesis
    by simp
qed

subsection \<open>Date range\<close>








subsection \<open>Global search\<close>

lemma mapE_const:
  "mapE (\<lambda>field. andThen r (\<lambda>p. Inr (field, p))) sfs =
     (case sfs of [] \<Rightarrow> Inr []
      | _ \<Rightarrow> (case r of Inl c \<Rightarrow> Inl c | Inr p \<Rightarrow> Inr (map (\<lambda>field. (field, p)) sfs)))"
  by (induction sfs) (auto simp: andThen_def split: sum.splits list.splits)

text \<open>
  What the search step does: with a truthy term and \<^verbatim>\<open>searchFields\<close> given, one pattern per
  field under \<^verbatim>\<open>$or\<close>, each with the term itself as its source; no pattern is built, and so
  none is rejected, when the list of fields is empty.
\<close>

lemma applySearch_eq:
  assumes "truthy (getProp (query req) ''search'')" and "searchFields cfg = Some sfs"
  shows "applySearch e cfg req F =
     (if sfs = [] then Inr (js_set ''$or'' (POr []) F)
      else case newRegExp e (toString (getProp (query req) ''search'')) of
             Inl c \<Rightarrow> Inl c
           | Inr p \<Rightarrow> Inr (js_set ''$or'' (POr (map (\<lambda>field. (field, p)) sfs)) F))"
proof -
  let ?r = "newRegExp e (toString (getProp (query req) ''search''))"
  have "applySearch e cfg req F =
      andThen (mapE (\<lambda>field. andThen ?r (\<lambda>p. Inr (field, p))) sfs)
        (\<lambda>searchConditions. Inr (js_set ''$or'' (POr searchConditions) F))"
    using assms by (simp add: applySearch_def Let_def)
  also have "\<dots> =
     (if sfs = [] then Inr (js_set ''$or'' (POr []) F)
      else case ?r of
             Inl c \<Rightarrow> Inl c
           | Inr p \<Rightarrow> Inr (js_set ''$or'' (POr (map (\<lambda>field. (field, p)) sfs)) F))"
    unfolding mapE_const by (cases sfs; cases ?r) (simp_all add: andThen_def)
  finally show ?thesis .
qed

text \<open>
  C9, on the code. The claim is that a search over configured search fields adds one \<^verbatim>\<open>$or\<close>
  clause of patterns that match the search term as a literal substring, and that no clause
  is added when \<^verbatim>\<open>searchFields\<close> is empty. The code takes the search term as the source of
  the pattern as it came, with no escaping: for \<^verbatim>\<open>?search=a.b\<close> on the users route each of
  the three patterns is \<^verbatim>\<open>a.b\<close>, which is not a literal (the dot matches any character),
  where the field filters would build \<^verbatim>\<open>a\.b\<close>; for \<^verbatim>\<open>?search=(\<close> the pattern does not
  compile and the call aborts. And with \<^verbatim>\<open>searchFields: []\<close> a search adds the clause
  \<^verbatim>\<open>$or: []\<close>, since an empty array is truthy.
\<close>

theorem C9_search_not_literal:
  "buildFilter (store 0) (mergeConfig usersOptions) (get [(''search'', JStr ''a.b'')])
     = Inr [(''$or'', POr [(''firstName'', ''a.b''), (''lastName'', ''a.b''), (''email'', ''a.b'')])]
   \<and> literalOf ''a.b'' = None
   \<and> escapeRegex ''a.b'' = [CHR ''a'', CHR 0x5C, CHR ''.'', CHR ''b'']
   \<and> queryBuilder (store 0) (get [(''search'', JStr ''('')]) usersOptions
     = Inl (QueryBuilderError (InvalidRegExp ''(''))
   \<and> buildFilter (store 0) (mergeConfig (usersOptions\<lparr>opt_searchFields := Some []\<rparr>))
        (get [(''search'', JStr ''rose'')])
     = Inr [(''$or'', POr [])]"
  by code_simp

subsection \<open>Navigation URLs\<close>

text \<open>
  C8, on the code. The claim is that reading the query string of \<^verbatim>\<open>first_page_url\<close> back
  gives \<^verbatim>\<open>page = 1\<close> and every other parameter of the request unchanged. The code applies
  \<^verbatim>\<open>encodeURIComponent\<close> to the values as they are, and does not encode the keys. For
  \<^verbatim>\<open>?filter[name]=john&page=2\<close>, which the Express parser delivers as the object
  \<^verbatim>\<open>{ filter: { name: 'john' }, page: '2' }\<close>, the first-page URL of the response carries
  \<^verbatim>\<open>filter=%5Bobject%20Object%5D\<close>, and reading it back gives the string
  \<^verbatim>\<open>[object Object]\<close>: the filter is lost. A repeated parameter, delivered as an array, comes
  back as one string with commas, and the key \<^verbatim>\<open>a&b\<close> comes back as two parameters.
\<close>

theorem C8_first_page_url_loses_filter:
  "(case queryBuilder (store 3)
           (get [(''filter'', JObj [(''name'', JStr ''john'')]), (''page'', JStr ''2'')]) plantsOptions of
      Inr r \<Rightarrow> first_page_url r
    | Inl err \<Rightarrow> [])
     = ''http://localhost:3000/plants/?filter=%5Bobject%20Object%5D&page=1''
   \<and> buildUrl (get [(''filter'', JObj [(''name'', JStr ''john'')]), (''page'', JStr ''2'')]) (Num 1)
     = ''http://localhost:3000/plants/?filter=%5Bobject%20Object%5D&page=1''
   \<and> parseQueryString
        (queryString (get [(''filter'', JObj [(''name'', JStr ''john'')]), (''page'', JStr ''2'')]) (Num 1))
     = [(''filter'', ''[object Object]''), (''page'', ''1'')]
   \<and> parseQueryString (queryString (get [(''tag'', JArr [JStr ''a'', JStr ''b''])]) (Num 1))
     = [(''tag'', ''a,b''), (''page'', ''1'')]
   \<and> parseQueryString (queryString (get [(''a&b'', JStr ''1'')]) (Num 1))
     = [(''a'', []), (''b'', ''1''), (''page'', ''1'')]"
  by code_simp

subsection \<open>Splitting and trimming\<close>

lemma splitOn_not_Nil: "splitOn d s \<noteq> []"
  by (induction s) (auto split: list.splits)

lemma joinWith_Cons_Cons: "joinWith sep ((c # w) # ws) = c # joinWith sep (w # ws)"
  by (cases ws) simp_all

text \<open>The pieces joined by the delimiter are the string, and no piece holds the delimiter.\<close>

lemma joinWith_splitOn: "joinWith [d] (splitOn d s) = s"
proof (induction s)
  case Nil
  show ?case by simp
next
  case (Cons c s)
  obtain w ws where sp: "splitOn d s = w # ws"
    using splitOn_not_Nil [of d s] by (cases "splitOn d s") auto
  show ?case
    using Cons.IH by (simp add: sp joinWith_Cons_Cons)
qed

lemma splitOn_pieces: "w \<in> set (splitOn d s) \<Longrightarrow> d \<notin> set w"
proof (induction s arbitrary: w)
  case Nil
  then show ?case by simp
next
  case (Cons c s)
  obtain v vs where sp: "splitOn d s = v # vs"
    using splitOn_not_Nil [of d s] by (cases "splitOn d s") auto
  show ?case
  proof (cases "c = d")
    case True
    with Cons show ?thesis by auto
  next
    case False
    with Cons.prems sp have "w = c # v \<or> w \<in> set vs"
      by simp
    with Cons.IH sp False show ?thesis
      by auto
  qed
qed

lemma length_splitOn: "length (splitOn d s) = Suc (count_list s d)"
proof (induction s)
  case Nil
  show ?case by simp
next
  case (Cons c s)
  obtain v vs where sp: "splitOn d s = v # vs"
    using splitOn_not_Nil [of d s] by (cases "splitOn d s") auto
  with Cons.IH show ?case
    by simp
qed

lemma leading_eq_0_iff:
  "leading ws s = 0 \<longleftrightarrow> (\<forall>w \<in> set ws. w \<noteq> [] \<longrightarrow> take (length w) s \<noteq> w)"
proof (cases "filter (\<lambda>w. w \<noteq> [] \<and> take (length w) s = w) ws")
  case Nil
  then have "\<forall>w \<in> set ws. \<not> (w \<noteq> [] \<and> take (length w) s = w)"
    by (simp add: filter_empty_conv)
  with Nil show ?thesis
    by (auto simp: leading_def)
next
  case (Cons w rest)
  then have "w \<in> set (filter (\<lambda>w. w \<noteq> [] \<and> take (length w) s = w) ws)"
    by simp
  then have "w \<in> set ws" and "w \<noteq> []" and "take (length w) s = w"
    by auto
  with Cons show ?thesis
    by (auto simp: leading_def)
qed

lemma leading_prefix: "leading ws (a @ b) = 0 \<Longrightarrow> leading ws a = 0"
proof -
  assume z: "leading ws (a @ b) = 0"
  have "take (length w) a \<noteq> w" if "w \<in> set ws" and "w \<noteq> []" for w
  proof
    assume t: "take (length w) a = w"
    then have "length (take (length w) a) = length w"
      by simp
    then have "length w \<le> length a"
      by simp
    with t have "take (length w) (a @ b) = w"
      by simp
    with z that show False
      by (simp add: leading_eq_0_iff)
  qed
  then show ?thesis
    by (simp add: leading_eq_0_iff)
qed

lemma strip_decomp: "\<exists>p. s = p @ strip ws s \<and> leading ws (strip ws s) = 0"
proof (induction ws s rule: strip.induct)
  case (1 ws s)
  show ?case
  proof (cases "leading ws s = 0")
    case True
    then show ?thesis
      by (simp add: strip.simps)
  next
    case False
    from "1" [OF False] obtain p where
      p: "drop (leading ws s) s = p @ strip ws (drop (leading ws s) s)"
      and z: "leading ws (strip ws (drop (leading ws s) s)) = 0"
      by blast
    have eq: "strip ws s = strip ws (drop (leading ws s) s)"
      using False by (subst strip.simps) simp
    have "s = take (leading ws s) s @ drop (leading ws s) s"
      by simp
    with p have "s = (take (leading ws s) s @ p) @ strip ws s"
      by (simp add: eq)
    with z eq show ?thesis
      by metis
  qed
qed

text \<open>
  A trimmed string is what remains of the string between a prefix and a suffix, and it
  neither starts nor ends with a white space character.
\<close>

lemma trim_decomp:
  "\<exists>p q. s = p @ trim s @ q"
  "leading whiteSpace (trim s) = 0"
  "leading (map rev whiteSpace) (rev (trim s)) = 0"
proof -
  obtain p where p: "s = p @ trimStart s" and zp: "leading whiteSpace (trimStart s) = 0"
    using strip_decomp [of s whiteSpace] by (auto simp: trimStart_def)
  obtain q where q: "rev (trimStart s) = q @ strip (map rev whiteSpace) (rev (trimStart s))"
    and zq: "leading (map rev whiteSpace) (strip (map rev whiteSpace) (rev (trimStart s))) = 0"
    using strip_decomp [of "rev (trimStart s)" "map rev whiteSpace"] by blast
  have t: "trim s = rev (strip (map rev whiteSpace) (rev (trimStart s)))"
    by (simp add: trim_def trimEnd_def)
  from q have ts: "trimStart s = trim s @ rev q"
    by (metis t rev_append rev_rev_ident)
  with p have "s = p @ trim s @ rev q"
    by simp
  then show "\<exists>p q. s = p @ trim s @ q"
    by blast
  from zp ts show "leading whiteSpace (trim s) = 0"
    using leading_prefix by metis
  from zq show "leading (map rev whiteSpace) (rev (trim s)) = 0"
    by (simp add: t)
qed

subsection \<open>Reading the query string back\<close>

lemma hexDigit_props_all:
  "\<forall>d \<in> set [0..<16]. digitOf (hexDigit d) = d \<and> hexDigit d \<noteq> CHR ''&''
      \<and> hexDigit d \<noteq> CHR ''='' \<and> hexDigit d \<noteq> CHR ''+''"
  by code_simp

lemma hexDigit_props:
  assumes "d < 16"
  shows "digitOf (hexDigit d) = d" and "hexDigit d \<noteq> CHR ''&''" and "hexDigit d \<noteq> CHR ''=''"
    and "hexDigit d \<noteq> CHR ''+''"
  using hexDigit_props_all assms by auto

lemma reserved_not_unreserved:
  "\<not> unreserved (CHR ''&'')" "\<not> unreserved (CHR ''='')" "\<not> unreserved (CHR ''+'')"
  "\<not> unreserved (CHR ''%'')"
  by code_simp+

lemma of_char_div_16: "(of_char c :: nat) div 16 < 16"
proof -
  have "(of_char c :: nat) mod 256 < 256"
    by (rule mod_less_divisor) simp
  then have "(of_char c :: nat) < 16 * 16"
    by simp
  then show ?thesis
    by (rule less_mult_imp_div_less)
qed

lemma encodeByte_clean:
  assumes "x \<in> set (encodeByte c)"
  shows "x \<noteq> CHR ''&'' \<and> x \<noteq> CHR ''='' \<and> x \<noteq> CHR ''+''"
proof (cases "unreserved c")
  case True
  with assms have "x = c"
    by (simp add: encodeByte_def)
  with True reserved_not_unreserved show ?thesis
    by auto
next
  case False
  with assms have "x = CHR ''%'' \<or> x = hexDigit ((of_char c :: nat) div 16)
      \<or> x = hexDigit ((of_char c :: nat) mod 16)"
    by (simp add: encodeByte_def)
  moreover have "(of_char c :: nat) mod 16 < 16"
    by simp
  ultimately show ?thesis
    using hexDigit_props [OF of_char_div_16 [of c]] hexDigit_props [of "(of_char c :: nat) mod 16"]
    by auto
qed

lemma percentDecode_plain: "c \<noteq> CHR ''%'' \<Longrightarrow> percentDecode (c # r) = c # percentDecode r"
  by (cases r rule: percentDecode.cases) (auto)


lemma percentDecode_escape:
  "digitOf h < 16 \<Longrightarrow> digitOf l < 16 \<Longrightarrow>
     percentDecode (CHR ''%'' # h # l # r) = char_of (16 * digitOf h + digitOf l) # percentDecode r"
  by simp

lemma percentDecode_encodeByte: "percentDecode (encodeByte c @ r) = c # percentDecode r"
proof (cases "unreserved c")
  case True
  then have "c \<noteq> CHR ''%''"
    using reserved_not_unreserved by auto
  with True show ?thesis
    by (simp add: encodeByte_def percentDecode_plain del: percentDecode.simps)
next
  case False
  let ?n = "of_char c :: nat"
  have hi: "digitOf (hexDigit (?n div 16)) = ?n div 16"
    using hexDigit_props(1) [OF of_char_div_16 [of c]] .
  have lo: "digitOf (hexDigit (?n mod 16)) = ?n mod 16"
    using hexDigit_props(1) [of "?n mod 16"] by simp
  have "char_of (16 * (?n div 16) + ?n mod 16) = c"
    by simp
  with False hi lo of_char_div_16 [of c] show ?thesis
    by (simp add: encodeByte_def percentDecode_escape del: percentDecode.simps)
qed

lemma percentDecode_encode: "percentDecode (concat (map encodeByte s)) = s"
proof (induction s)
  case Nil
  show ?case by simp
next
  case (Cons c s)
  then show ?case
    by (simp add: percentDecode_encodeByte del: percentDecode.simps)
qed

lemma encode_clean:
  "x \<in> set (concat (map encodeByte s)) \<Longrightarrow> x \<noteq> CHR ''&'' \<and> x \<noteq> CHR ''='' \<and> x \<noteq> CHR ''+''"
  using encodeByte_clean by auto

lemma plusToSpace_id: "CHR ''+'' \<notin> set s \<Longrightarrow> plusToSpace s = s"
  by (induction s) (auto simp: plusToSpace_def)

lemma percentDecode_id: "CHR ''%'' \<notin> set s \<Longrightarrow> percentDecode s = s"
proof (induction s)
  case Nil
  show ?case by simp
next
  case (Cons c s)
  then have "c \<noteq> CHR ''%''" and "percentDecode s = s"
    by auto
  then show ?case
    by (simp add: percentDecode_plain del: percentDecode.simps)
qed

lemma splitFirst_key: "d \<notin> set k \<Longrightarrow> splitFirst d (k @ d # v) = (k, v)"
  by (induction k) (auto simp: splitFirst_def)

lemma splitOn_single: "d \<notin> set p \<Longrightarrow> splitOn d p = [p]"
  by (induction p) auto

lemma splitOn_append: "d \<notin> set p \<Longrightarrow> splitOn d (p @ d # r) = p # splitOn d r"
  by (induction p) auto

lemma splitOn_joinWith:
  "parts \<noteq> [] \<Longrightarrow> \<forall>p \<in> set parts. d \<notin> set p \<Longrightarrow> splitOn d (joinWith [d] parts) = parts"
proof (induction parts)
  case Nil
  then show ?case by simp
next
  case (Cons x xs)
  show ?case
  proof (cases xs)
    case Nil
    with Cons.prems show ?thesis
      by (simp add: splitOn_single)
  next
    case (Cons y ys)
    with Cons.prems Cons.IH show ?thesis
      by (simp add: splitOn_append)
  qed
qed


lemma getProp_distinct: "distinct (map fst ps) \<Longrightarrow> (k, v) \<in> set ps \<Longrightarrow> getProp ps k = v"
  by (simp add: getProp_def)

lemma queryString_pairs:
  assumes "distinct (map fst (query req))"
  shows "queryString req n =
     joinWith ''&''
       (map (\<lambda>(k, v). k @ ''='' @ encodeURIComponent v)
            (filter (\<lambda>(k, v). v \<noteq> JUndefined \<and> v \<noteq> JStr [])
                    (AList.update ''page'' (JNum n) (query req))))"
proof -
  let ?ps = "AList.update ''page'' (JNum n) (query req)"
  have d: "distinct (map fst ?ps)"
    using assms by (rule distinct_update)
  have g: "getProp ?ps (fst x) = snd x" if "x \<in> set ?ps" for x
    using getProp_distinct [OF d, of "fst x" "snd x"] that by simp
  have f: "filter (\<lambda>key. getProp ?ps key \<noteq> JUndefined \<and> getProp ?ps key \<noteq> JStr []) (map fst ?ps)
      = map fst (filter (\<lambda>(k, v). v \<noteq> JUndefined \<and> v \<noteq> JStr []) ?ps)"
    unfolding filter_map by (rule arg_cong [where f = "map fst"], rule filter_cong) (auto simp: g)
  have m: "map (\<lambda>key. key @ ''='' @ encodeURIComponent (getProp ?ps key))
             (map fst (filter (\<lambda>(k, v). v \<noteq> JUndefined \<and> v \<noteq> JStr []) ?ps))
      = map (\<lambda>(k, v). k @ ''='' @ encodeURIComponent v)
            (filter (\<lambda>(k, v). v \<noteq> JUndefined \<and> v \<noteq> JStr []) ?ps)"
    unfolding map_map by (rule map_cong) (auto simp: g)
  show ?thesis
    unfolding queryString_def Let_def f m ..
qed

lemma safeKey_decode: "safeKey k \<Longrightarrow> percentDecode (plusToSpace k) = k"
proof -
  assume "safeKey k"
  then have "CHR ''+'' \<notin> set k" and "CHR ''%'' \<notin> set k"
    by (auto simp: safeKey_def)
  then show ?thesis
    by (simp add: plusToSpace_id percentDecode_id)
qed

lemma encoded_decode: "percentDecode (plusToSpace (encodeURIComponent v)) = toString v"
proof -
  have "CHR ''+'' \<notin> set (encodeURIComponent v)"
    using encode_clean [of "CHR ''+''" "toString v"] by (auto simp: encodeURIComponent_def)
  then show ?thesis
    by (simp add: plusToSpace_id) (simp add: encodeURIComponent_def percentDecode_encode)
qed

lemma part_clean:
  assumes "safeKey k"
  shows "CHR ''&'' \<notin> set (k @ ''='' @ encodeURIComponent v)"
  using assms encode_clean [of "CHR ''&''" "toString v"]
  by (auto simp: safeKey_def encodeURIComponent_def)

lemma part_read:
  assumes "safeKey k"
  shows "(percentDecode (plusToSpace (fst (splitFirst (CHR ''='') (k @ ''='' @ encodeURIComponent v)))),
          percentDecode (plusToSpace (snd (splitFirst (CHR ''='') (k @ ''='' @ encodeURIComponent v)))))
         = (k, toString v)"
proof -
  from assms have "CHR ''='' \<notin> set k"
    by (auto simp: safeKey_def)
  then have "splitFirst (CHR ''='') (k @ ''='' @ encodeURIComponent v) = (k, encodeURIComponent v)"
    using splitFirst_key [of "CHR ''=''" k "encodeURIComponent v"] by simp
  with assms show ?thesis
    by (simp add: safeKey_decode encoded_decode)
qed

lemma parse_parts:
  assumes "\<forall>(k, v) \<in> set kvs. safeKey k"
  shows "parseQueryString (joinWith ''&'' (map (\<lambda>(k, v). k @ ''='' @ encodeURIComponent v) kvs))
         = map (\<lambda>(k, v). (k, toString v)) kvs"
proof (cases kvs)
  case Nil
  then show ?thesis
    by (simp add: parseQueryString_def)
next
  case (Cons kv rest)
  let ?parts = "map (\<lambda>(k, v). k @ ''='' @ encodeURIComponent v) kvs"
  have ne: "?parts \<noteq> []"
    using Cons by simp
  have clean: "\<forall>p \<in> set ?parts. CHR ''&'' \<notin> set p"
    using assms part_clean by fastforce
  have nonempty: "\<forall>p \<in> set ?parts. p \<noteq> []"
    by auto
  have sp: "splitOn (CHR ''&'') (joinWith ''&'' ?parts) = ?parts"
    using splitOn_joinWith [OF ne clean] by simp
  have fl: "filter (\<lambda>part. part \<noteq> []) ?parts = ?parts"
    using nonempty by (simp add: filter_id_conv)
  show ?thesis
    unfolding parseQueryString_def sp fl map_map
    by (rule map_cong) (use assms part_read in auto)
qed

text \<open>
  What the composer does keep. When the keys of the query are distinct and safe, reading
  the query string of \<^verbatim>\<open>buildUrl(n)\<close> back gives, in order, every parameter whose value is
  neither \<^verbatim>\<open>undefined\<close> nor the empty string, with \<^verbatim>\<open>page\<close> set to \<open>n\<close> and each value
  as the string it converts to: a string value comes back byte for byte, an array as its
  elements joined by commas, an object as \<^verbatim>\<open>[object Object]\<close>.
\<close>

lemma queryString_roundtrip:
  assumes "distinct (map fst (query req))" and "\<forall>k \<in> fst ` set (query req). safeKey k"
  shows "parseQueryString (queryString req n)
         = map (\<lambda>(k, v). (k, toString v))
               (filter (\<lambda>(k, v). v \<noteq> JUndefined \<and> v \<noteq> JStr [])
                       (AList.update ''page'' (JNum n) (query req)))"
proof -
  have p: "safeKey ''page''"
    by (simp add: safeKey_def)
  have "fst ` set (AList.update ''page'' (JNum n) (query req)) = insert ''page'' (fst ` set (query req))"
    by (simp add: dom_update)
  with assms(2) p have "\<forall>k \<in> fst ` set (AList.update ''page'' (JNum n) (query req)). safeKey k"
    by simp
  then have "\<forall>(k, v) \<in> set (filter (\<lambda>(k, v). v \<noteq> JUndefined \<and> v \<noteq> JStr [])
                       (AList.update ''page'' (JNum n) (query req))). safeKey k"
    by force
  then show ?thesis
    unfolding queryString_pairs [OF assms(1)] by (rule parse_parts)
qed

end
